theory Spec2Isabelle
  imports Main "HOL-Library.Word" "HOL-Library.Product_Lexorder"
begin

unbundle bit_operations_syntax

section \<open>Block assembly and proof-of-stake submission (miner.cpp)\<close>

text \<open>
  A shallow embedding of \<^verbatim>\<open>src/miner.cpp\<close>: the \<^verbatim>\<open>BlockAssembler\<close> constructor and
  \<^verbatim>\<open>DefaultOptions\<close>, \<^verbatim>\<open>CreateNewBlock\<close> with the package selection loop
  \<^verbatim>\<open>addPackageTxs\<close> and its helpers, \<^verbatim>\<open>UpdateTime\<close>, \<^verbatim>\<open>GetMaxTransactionTime\<close> and
  \<^verbatim>\<open>ProcessBlockFound\<close>.

  Conventions.
  \<^item> \<^verbatim>\<open>int64_t\<close> and \<^verbatim>\<open>CAmount\<close> values are \<open>int\<close>; \<^verbatim>\<open>uint64_t\<close> and \<^verbatim>\<open>size_t\<close>
    values are \<open>nat\<close>, and every addition or subtraction on them that involves mempool
    data is reduced modulo \<open>2 ^ 64\<close> (\<open>u64\<close>); \<^verbatim>\<open>uint32_t\<close> time stamps are \<open>32 word\<close>.
  \<^item> Constants, types and collaborators declared outside \<^verbatim>\<open>miner.cpp\<close> (consensus
    constants, the mempool and its entries, the wallet, the chain tip, validation) are
    parameters: they are read from the records \<open>chain_consts\<close>, \<open>CTxMemPool\<close>,
    \<open>CWallet\<close> and \<open>node_env\<close>.
  \<^item> An \<^verbatim>\<open>assert\<close> that fails and a thrown \<^verbatim>\<open>std::runtime_error\<close> are values of
    type \<open>failure\<close>.
\<close>

subsection \<open>Constants and integer conversions\<close>

type_synonym CAmount = int
type_synonym uint256 = nat
type_synonym CScript = "int list"

record chain_consts =
  MAX_BLOCK_WEIGHT :: nat
  MAX_BLOCK_SIGOPS_COST :: int
  DEFAULT_BLOCK_MAX_WEIGHT :: nat
  WITNESS_SCALE_FACTOR :: nat
  DEFAULT_BLOCK_MIN_TX_FEE :: CAmount

definition u64 :: "nat \<Rightarrow> nat" where
  "u64 n = n mod 2 ^ 64"

definition u64_of_int :: "int \<Rightarrow> nat" where
  "u64_of_int i = nat (i mod 2 ^ 64)"

definition u64_sub :: "nat \<Rightarrow> nat \<Rightarrow> nat" where
  "u64_sub a b = (a + 2 ^ 64 - b mod 2 ^ 64) mod 2 ^ 64"

text \<open>The conversion of an \<^verbatim>\<open>int64_t\<close> to an \<^verbatim>\<open>int32_t\<close>.\<close>

definition i32_of_int :: "int \<Rightarrow> int" where
  "i32_of_int i = (i + 2 ^ 31) mod 2 ^ 32 - 2 ^ 31"

subsection \<open>Transactions, blocks and templates\<close>

text \<open>The parts of \<^verbatim>\<open>primitives/transaction.h\<close> and \<^verbatim>\<open>primitives/block.h\<close> that
  \<^verbatim>\<open>miner.cpp\<close> reads or writes. A \<^verbatim>\<open>CTransaction\<close> is a \<^verbatim>\<open>CMutableTransaction\<close>
  together with the hash computed when it is constructed.\<close>

record CTxIn =
  prevout_hash :: uint256
  scriptSig :: CScript

record CTxOut =
  nValue :: CAmount
  scriptPubKey :: CScript

record CMutableTransaction =
  vin :: "CTxIn list"
  vout :: "CTxOut list"
  tx_nTime :: "32 word"
  HasWitness :: bool

record CTransaction = CMutableTransaction +
  GetHash :: uint256

record CBlock =
  nVersion :: int
  hashPrevBlock :: uint256
  nTime :: "32 word"
  nBits :: nat
  nNonce :: nat
  nFlags :: nat
  vtx :: "CTransaction list"

record CBlockTemplate =
  block :: CBlock
  vTxFees :: "CAmount list"
  vTxSigOpsCost :: "int list"
  vchCoinbaseCommitment :: "nat list"

text \<open>The null reference that \<^verbatim>\<open>vtx.emplace_back()\<close> puts in the coinbase slot. It is
  overwritten (line 231) before anything reads the slot.\<close>

definition null_tx :: CTransaction where
  "null_tx = \<lparr> vin = [], vout = [], tx_nTime = 0, HasWitness = False, GetHash = 0 \<rparr>"

definition CBlock_new :: CBlock where
  "CBlock_new = \<lparr> nVersion = 0, hashPrevBlock = 0, nTime = 0, nBits = 0, nNonce = 0,
                   nFlags = 0, vtx = [] \<rparr>"

definition CBlockTemplate_new :: CBlockTemplate where
  "CBlockTemplate_new = \<lparr> block = CBlock_new, vTxFees = [], vTxSigOpsCost = [],
                           vchCoinbaseCommitment = [] \<rparr>"

text \<open>\<^verbatim>\<open>MakeTransactionRef(CTransaction(mtx))\<close>; the hash function is a parameter.\<close>

definition MakeTransactionRef ::
  "(CMutableTransaction \<Rightarrow> uint256) \<Rightarrow> CMutableTransaction \<Rightarrow> CTransaction" where
  "MakeTransactionRef H mtx =
     \<lparr> vin = vin mtx, vout = vout mtx, tx_nTime = tx_nTime mtx, HasWitness = HasWitness mtx,
       GetHash = H mtx \<rparr>"

subsection \<open>The mempool as the assembler sees it\<close>

text \<open>
  \<^verbatim>\<open>txmempool.h\<close> is not among the sources. An entry is the record of the getters
  \<^verbatim>\<open>miner.cpp\<close> calls. The pool is the sequence of its entries in the order of the
  \<^verbatim>\<open>ancestor_score\<close> index, a \<^verbatim>\<open>txiter\<close> is a position in that sequence, and a
  \<^verbatim>\<open>setEntries\<close> is a list without repetition. The answer of
  \<^verbatim>\<open>CalculateMemPoolAncestors\<close> (with no limits) and the comparator of the
  \<^verbatim>\<open>ancestor_score\<close> index are parameters of the pool.
\<close>

type_synonym txiter = nat
type_synonym setEntries = "txiter list"

record CTxMemPoolEntry =
  GetTx :: CTransaction
  GetFee :: CAmount
  GetModifiedFee :: CAmount
  GetTxSize :: nat
  GetTxWeight :: nat
  GetSigOpCost :: int
  GetCountWithAncestors :: nat
  GetSizeWithAncestors :: nat
  GetModFeesWithAncestors :: CAmount
  GetSigOpCostWithAncestors :: int

record CTxMemPoolModifiedEntry =
  iter :: txiter
  nSizeWithAncestors :: nat
  nModFeesWithAncestors :: CAmount
  nSigOpCostWithAncestors :: int

record CTxMemPool =
  mapTx :: "CTxMemPoolEntry list"
  CalculateMemPoolAncestors :: "txiter \<Rightarrow> setEntries"
  CompareTxMemPoolEntryByAncestorFee ::
    "CTxMemPoolModifiedEntry \<Rightarrow> CTxMemPoolModifiedEntry \<Rightarrow> bool"

definition entry :: "CTxMemPool \<Rightarrow> txiter \<Rightarrow> CTxMemPoolEntry" where
  "entry pool it = mapTx pool ! it"

text \<open>Modelled from the spec: \<^verbatim>\<open>calculate_descendants(h) \<rightarrow> set\<close>, the entry itself and
  every entry of the pool that has it among its in-mempool ancestors
  (\<^verbatim>\<open>CTxMemPool::CalculateDescendants\<close> is in \<^verbatim>\<open>txmempool.cpp\<close>).\<close>

definition CalculateDescendants :: "CTxMemPool \<Rightarrow> txiter \<Rightarrow> setEntries" where
  "CalculateDescendants pool it =
     it # filter (\<lambda>d. d \<noteq> it \<and> it \<in> set (CalculateMemPoolAncestors pool d))
            [0 ..< length (mapTx pool)]"

text \<open>\<^verbatim>\<open>CTxMemPoolModifiedEntry(txiter)\<close>: the entry's own ancestor totals.\<close>

definition ModifiedEntry_of :: "CTxMemPool \<Rightarrow> txiter \<Rightarrow> CTxMemPoolModifiedEntry" where
  "ModifiedEntry_of pool it =
     \<lparr> iter = it,
       nSizeWithAncestors = GetSizeWithAncestors (entry pool it),
       nModFeesWithAncestors = GetModFeesWithAncestors (entry pool it),
       nSigOpCostWithAncestors = GetSigOpCostWithAncestors (entry pool it) \<rparr>"

text \<open>The three subtractions of lines 333-335. Modelled from the spec:
  \<^verbatim>\<open>update_for_parent_inclusion\<close> (declared in \<^verbatim>\<open>miner.h\<close>) subtracts the parent's own
  size, modified fee and sigops from a tracked descendant in the same way.\<close>

definition update_for_parent_inclusion ::
  "CTxMemPoolEntry \<Rightarrow> CTxMemPoolModifiedEntry \<Rightarrow> CTxMemPoolModifiedEntry" where
  "update_for_parent_inclusion parent e =
     e\<lparr> nSizeWithAncestors := u64_sub (nSizeWithAncestors e) (GetTxSize parent),
        nModFeesWithAncestors := nModFeesWithAncestors e - GetModifiedFee parent,
        nSigOpCostWithAncestors := nSigOpCostWithAncestors e - GetSigOpCost parent \<rparr>"

text \<open>\<^verbatim>\<open>indexed_modified_transaction_set\<close>: unique by \<open>iter\<close>; the first element of its
  \<^verbatim>\<open>ancestor_score\<close> index is the one no other element is ordered before.\<close>

type_synonym indexed_modified_transaction_set = "CTxMemPoolModifiedEntry list"

definition mod_find ::
  "indexed_modified_transaction_set \<Rightarrow> txiter \<Rightarrow> CTxMemPoolModifiedEntry option" where
  "mod_find m it = find (\<lambda>e. iter e = it) m"

definition mod_erase ::
  "indexed_modified_transaction_set \<Rightarrow> txiter \<Rightarrow> indexed_modified_transaction_set" where
  "mod_erase m it = filter (\<lambda>e. iter e \<noteq> it) m"

definition mod_modify ::
  "indexed_modified_transaction_set \<Rightarrow> txiter
     \<Rightarrow> (CTxMemPoolModifiedEntry \<Rightarrow> CTxMemPoolModifiedEntry) \<Rightarrow> indexed_modified_transaction_set" where
  "mod_modify m it f = map (\<lambda>e. if iter e = it then f e else e) m"

fun mod_begin ::
  "CTxMemPool \<Rightarrow> indexed_modified_transaction_set \<Rightarrow> CTxMemPoolModifiedEntry option" where
  "mod_begin pool [] = None"
| "mod_begin pool (e # es) =
     Some (fold (\<lambda>x b. if CompareTxMemPoolEntryByAncestorFee pool x b then x else b) es e)"

subsection \<open>Options and the constructor\<close>

text \<open>A \<^verbatim>\<open>CFeeRate\<close> is its amount per 1000 bytes; \<^verbatim>\<open>CFeeRate::GetFee\<close> is a parameter
  of the functions that use it.\<close>

type_synonym CFeeRate = CAmount

record Options =
  opt_blockMinFeeRate :: CFeeRate
  opt_nBlockMaxWeight :: nat

text \<open>\<^verbatim>\<open>BlockAssembler::Options::Options()\<close>\<close>

definition Options_default :: "chain_consts \<Rightarrow> Options" where
  "Options_default c =
     \<lparr> opt_blockMinFeeRate = DEFAULT_BLOCK_MIN_TX_FEE c,
       opt_nBlockMaxWeight = DEFAULT_BLOCK_MAX_WEIGHT c \<rparr>"

text \<open>The two settings \<^verbatim>\<open>DefaultOptions\<close> reads from \<^verbatim>\<open>gArgs\<close>: \<open>None\<close> when the
  argument is not given. \<^verbatim>\<open>GetArg\<close> returns the default then.\<close>

record ArgsManager =
  arg_blockmaxweight :: "int option"
  arg_blockmintxfee :: "string option"

definition GetArg :: "'a option \<Rightarrow> 'a \<Rightarrow> 'a" where
  "GetArg setting dflt = (case setting of None \<Rightarrow> dflt | Some v \<Rightarrow> v)"

text \<open>\<^verbatim>\<open>DefaultOptions\<close>. The \<^verbatim>\<open>int64_t\<close> that \<^verbatim>\<open>GetArg\<close> returns is converted to the
  \<^verbatim>\<open>size_t\<close> field. \<^verbatim>\<open>ParseMoney\<close> is a parameter.\<close>

definition DefaultOptions ::
  "chain_consts \<Rightarrow> (string \<Rightarrow> CAmount option) \<Rightarrow> ArgsManager \<Rightarrow> Options" where
  "DefaultOptions c ParseMoney gArgs =
     (let options = Options_default c;
          options = options\<lparr> opt_nBlockMaxWeight :=
                      u64_of_int (GetArg (arg_blockmaxweight gArgs)
                                    (int (DEFAULT_BLOCK_MAX_WEIGHT c))) \<rparr>
      in case arg_blockmintxfee gArgs of
           None \<Rightarrow> options\<lparr> opt_blockMinFeeRate := DEFAULT_BLOCK_MIN_TX_FEE c \<rparr>
         | Some str \<Rightarrow>
             (case ParseMoney str of
                Some n \<Rightarrow> options\<lparr> opt_blockMinFeeRate := n \<rparr>
              | None \<Rightarrow> options\<lparr> opt_blockMinFeeRate := DEFAULT_BLOCK_MIN_TX_FEE c \<rparr>))"

text \<open>The members of a \<^verbatim>\<open>BlockAssembler\<close> (declared in \<^verbatim>\<open>miner.h\<close>) that
  \<^verbatim>\<open>miner.cpp\<close> uses.\<close>

record BlockAssembler =
  blockMinFeeRate :: CFeeRate
  nBlockMaxWeight :: nat
  pblocktemplate :: CBlockTemplate
  inBlock :: setEntries
  nBlockWeight :: nat
  nBlockSigOpsCost :: nat
  nBlockTx :: nat
  nFees :: CAmount
  fIncludeWitness :: bool
  nHeight :: int
  nLockTimeCutoff :: int

text \<open>\<^verbatim>\<open>BlockAssembler::BlockAssembler\<close>, on the object \<open>raw\<close> before the constructor body:
  \<^verbatim>\<open>std::max<size_t>(4000, std::min<size_t>(MAX_BLOCK_WEIGHT - 4000, options.nBlockMaxWeight))\<close>\<close>

definition BlockAssembler_ctor ::
  "chain_consts \<Rightarrow> Options \<Rightarrow> BlockAssembler \<Rightarrow> BlockAssembler" where
  "BlockAssembler_ctor c options raw =
     raw\<lparr> blockMinFeeRate := opt_blockMinFeeRate options,
          nBlockMaxWeight :=
            max 4000 (min (MAX_BLOCK_WEIGHT c - 4000) (opt_nBlockMaxWeight options)) \<rparr>"

subsection \<open>Collaborators of one call\<close>

text \<open>What a call reads from outside \<^verbatim>\<open>miner.cpp\<close>: the chain tip, the clock at each
  of its reads, the objects that default constructors deliver, and the functions of
  consensus, policy and validation.\<close>

record CBlockIndex =
  tip_nHeight :: int
  GetMedianTimePast :: int
  GetBlockHash :: uint256

record node_env =
  Tip :: CBlockIndex
  now_at_start :: int
  now_at_static_init :: int
  now_at_update :: int
  new_coinbaseTx :: CMutableTransaction
  new_txCoinStake :: CMutableTransaction
  ComputeHash :: "CMutableTransaction \<Rightarrow> uint256"
  GetNextTargetRequired :: "bool \<Rightarrow> nat"
  GetBlockSubsidy :: "int \<Rightarrow> CAmount"
  ComputeBlockVersion :: int
  MineBlocksOnDemand :: bool
  arg_blockversion :: "int option"
  locktime_median_time_past :: bool
  DeploymentActiveAfter_SEGWIT :: bool
  GenerateCoinbaseCommitment :: "CBlock \<Rightarrow> CTransaction \<times> nat list"
  GetLegacySigOpCount :: "CTransaction \<Rightarrow> int"
  TestBlockValidity :: "CBlock \<Rightarrow> bool"
  IsProofOfStake :: "CBlock \<Rightarrow> bool"
  FeeRate_GetFee :: "CFeeRate \<Rightarrow> nat \<Rightarrow> CAmount"
  IsFinalTx :: "CTransaction \<Rightarrow> int \<Rightarrow> int \<Rightarrow> bool"
  nStakeTimestampMask :: "32 word"
  fPowAllowMinDifficultyBlocks :: bool
  BLOCK_PROOF_OF_STAKE :: nat

subsection \<open>Methods of the assembler\<close>

text \<open>\<^verbatim>\<open>BlockAssembler::resetBlock\<close>\<close>

definition resetBlock :: "BlockAssembler \<Rightarrow> BlockAssembler" where
  "resetBlock a =
     a\<lparr> inBlock := [], nBlockWeight := 4000, nBlockSigOpsCost := 400,
        fIncludeWitness := False, nBlockTx := 0, nFees := 0 \<rparr>"

text \<open>\<^verbatim>\<open>BlockAssembler::onlyUnconfirmed\<close>\<close>

definition onlyUnconfirmed :: "BlockAssembler \<Rightarrow> setEntries \<Rightarrow> setEntries" where
  "onlyUnconfirmed a testSet = filter (\<lambda>it. it \<notin> set (inBlock a)) testSet"

text \<open>\<^verbatim>\<open>BlockAssembler::TestPackage\<close>. Both comparisons are between unsigned 64-bit
  values.\<close>

definition TestPackage :: "chain_consts \<Rightarrow> BlockAssembler \<Rightarrow> nat \<Rightarrow> int \<Rightarrow> bool" where
  "TestPackage c a packageSize packageSigOpsCost =
     (if u64 (nBlockWeight a + u64 (WITNESS_SCALE_FACTOR c * packageSize)) \<ge> nBlockMaxWeight a
      then False
      else if u64_of_int (int (nBlockSigOpsCost a) + packageSigOpsCost)
                \<ge> u64_of_int (MAX_BLOCK_SIGOPS_COST c)
      then False
      else True)"

text \<open>\<^verbatim>\<open>BlockAssembler::TestPackageTransactions\<close>\<close>

definition TestPackageTransactions ::
  "node_env \<Rightarrow> CTxMemPool \<Rightarrow> BlockAssembler \<Rightarrow> setEntries \<Rightarrow> bool" where
  "TestPackageTransactions env pool a package =
     list_all (\<lambda>it. IsFinalTx env (GetTx (entry pool it)) (nHeight a) (nLockTimeCutoff a)
                   \<and> \<not> (\<not> fIncludeWitness a \<and> HasWitness (GetTx (entry pool it))))
              package"

text \<open>\<^verbatim>\<open>BlockAssembler::AddToBlock\<close> (without the optional log line)\<close>

definition AddToBlock :: "CTxMemPool \<Rightarrow> txiter \<Rightarrow> BlockAssembler \<Rightarrow> BlockAssembler" where
  "AddToBlock pool it a =
     (let e = entry pool it; t = pblocktemplate a; b = block t
      in a\<lparr> pblocktemplate :=
               t\<lparr> block := b\<lparr> vtx := vtx b @ [GetTx e] \<rparr>,
                  vTxFees := vTxFees t @ [GetFee e],
                  vTxSigOpsCost := vTxSigOpsCost t @ [GetSigOpCost e] \<rparr>,
             nBlockWeight := u64 (nBlockWeight a + GetTxWeight e),
             nBlockTx := u64 (nBlockTx a + 1),
             nBlockSigOpsCost := u64_of_int (int (nBlockSigOpsCost a) + GetSigOpCost e),
             nFees := nFees a + GetFee e,
             inBlock := List.insert it (inBlock a) \<rparr>)"

text \<open>\<^verbatim>\<open>BlockAssembler::UpdatePackagesForAdded\<close>: the body of the inner loop, for one
  descendant \<open>desc\<close> of the added entry \<open>it\<close>, on the pair of the running count and the
  modified set; then the two loops.\<close>

definition update_descendant ::
  "CTxMemPool \<Rightarrow> setEntries \<Rightarrow> txiter \<Rightarrow> txiter
     \<Rightarrow> int \<times> indexed_modified_transaction_set \<Rightarrow> int \<times> indexed_modified_transaction_set" where
  "update_descendant pool alreadyAdded it desc acc =
     (case acc of (n, m) \<Rightarrow>
        if desc \<in> set alreadyAdded then (n, m)
        else (case mod_find m desc of
                None \<Rightarrow>
                  (n + 1, m @ [update_for_parent_inclusion (entry pool it)
                                 (ModifiedEntry_of pool desc)])
              | Some mit \<Rightarrow>
                  (n + 1, mod_modify m desc (update_for_parent_inclusion (entry pool it)))))"

definition UpdatePackagesForAdded ::
  "CTxMemPool \<Rightarrow> setEntries \<Rightarrow> indexed_modified_transaction_set
     \<Rightarrow> int \<times> indexed_modified_transaction_set" where
  "UpdatePackagesForAdded pool alreadyAdded mapModifiedTx =
     fold (\<lambda>it acc. fold (update_descendant pool alreadyAdded it)
                         (CalculateDescendants pool it) acc)
          alreadyAdded (0, mapModifiedTx)"

text \<open>\<^verbatim>\<open>BlockAssembler::SkipMapTxEntry\<close>; its caller has checked that \<open>it\<close> is not the
  end of the index.\<close>

definition SkipMapTxEntry ::
  "BlockAssembler \<Rightarrow> txiter \<Rightarrow> indexed_modified_transaction_set \<Rightarrow> setEntries \<Rightarrow> bool" where
  "SkipMapTxEntry a it mapModifiedTx failedTx =
     (mod_find mapModifiedTx it \<noteq> None \<or> it \<in> set (inBlock a) \<or> it \<in> set failedTx)"

text \<open>\<^verbatim>\<open>BlockAssembler::SortForBlock\<close>. Modelled from the spec: the package is sorted
  by ancestor count ascending; \<^verbatim>\<open>CompareTxIterByAncestorCount\<close> (in \<^verbatim>\<open>txmempool.h\<close>)
  orders entries of equal count by transaction hash.\<close>

definition SortForBlock :: "CTxMemPool \<Rightarrow> setEntries \<Rightarrow> txiter list" where
  "SortForBlock pool package =
     sort_key (\<lambda>it. (GetCountWithAncestors (entry pool it), GetHash (GetTx (entry pool it))))
              package"

subsection \<open>The selection loop\<close>

text \<open>The locals of \<^verbatim>\<open>addPackageTxs\<close> together with the assembler. \<open>mi\<close> is the position
  of the iterator over the \<^verbatim>\<open>ancestor_score\<close> index; the end of the index is the length
  of the pool.\<close>

record selection =
  asm :: BlockAssembler
  mi :: nat
  mapModifiedTx :: indexed_modified_transaction_set
  failedTx :: setEntries
  nConsecutiveFailed :: int
  nPackagesSelected :: int
  nDescendantsUpdated :: int

datatype step = Again selection | Commit setEntries selection | Done selection | Aborted

definition MAX_CONSECUTIVE_FAILURES :: int where
  "MAX_CONSECUTIVE_FAILURES = 1000"

text \<open>Lines 410-434: which transaction to evaluate. The result is the entry, the
  element of the modified set when that is what is used (\<^verbatim>\<open>fUsingModified\<close>), and the
  state with \<open>mi\<close> advanced when the entry comes from the index.\<close>

definition choose_candidate ::
  "CTxMemPool \<Rightarrow> selection \<Rightarrow> txiter \<times> CTxMemPoolModifiedEntry option \<times> selection" where
  "choose_candidate pool s =
     (case mod_begin pool (mapModifiedTx s) of
        None \<Rightarrow> (mi s, None, s\<lparr> mi := mi s + 1 \<rparr>)
      | Some modit \<Rightarrow>
          if \<not> mi s < length (mapTx pool) then (iter modit, Some modit, s)
          else if CompareTxMemPoolEntryByAncestorFee pool modit (ModifiedEntry_of pool (mi s))
          then (iter modit, Some modit, s)
          else (mi s, None, s\<lparr> mi := mi s + 1 \<rparr>))"

text \<open>Lines 440-447: \<open>packageSize\<close>, \<open>packageFees\<close> and \<open>packageSigOpsCost\<close>, from
  the entry or, with \<^verbatim>\<open>fUsingModified\<close>, from the element of the modified set.\<close>

definition package_totals ::
  "CTxMemPool \<Rightarrow> txiter \<Rightarrow> CTxMemPoolModifiedEntry option \<Rightarrow> nat \<times> CAmount \<times> int" where
  "package_totals pool it using_modified =
     (case using_modified of
        None \<Rightarrow> (GetSizeWithAncestors (entry pool it),
                 GetModFeesWithAncestors (entry pool it),
                 GetSigOpCostWithAncestors (entry pool it))
      | Some modit \<Rightarrow> (nSizeWithAncestors modit,
                       nModFeesWithAncestors modit,
                       nSigOpCostWithAncestors modit))"

text \<open>Lines 455-461 and 483-486: a failed entry of the modified set is erased from it
  and remembered in \<open>failedTx\<close>.\<close>

definition drop_failed ::
  "CTxMemPoolModifiedEntry option \<Rightarrow> txiter \<Rightarrow> selection \<Rightarrow> selection" where
  "drop_failed using_modified it s =
     (case using_modified of
        None \<Rightarrow> s
      | Some modit \<Rightarrow>
          s\<lparr> mapModifiedTx := mod_erase (mapModifiedTx s) (iter modit),
             failedTx := List.insert it (failedTx s) \<rparr>)"

text \<open>Lines 497-501: each entry is added to the block and erased from the modified
  set.\<close>

definition add_sorted :: "CTxMemPool \<Rightarrow> txiter list \<Rightarrow> selection \<Rightarrow> selection" where
  "add_sorted pool sortedEntries s =
     fold (\<lambda>it s. s\<lparr> asm := AddToBlock pool it (asm s),
                     mapModifiedTx := mod_erase (mapModifiedTx s) it \<rparr>)
          sortedEntries s"

text \<open>Lines 490-506: the package passed every test.\<close>

definition commit_package :: "CTxMemPool \<Rightarrow> setEntries \<Rightarrow> selection \<Rightarrow> selection" where
  "commit_package pool ancestors s =
     (let s = s\<lparr> nConsecutiveFailed := 0 \<rparr>;
          s = add_sorted pool (SortForBlock pool ancestors) s;
          s = s\<lparr> nPackagesSelected := nPackagesSelected s + 1 \<rparr>;
          (n, m) = UpdatePackagesForAdded pool ancestors (mapModifiedTx s)
      in s\<lparr> nDescendantsUpdated := nDescendantsUpdated s + n, mapModifiedTx := m \<rparr>)"

text \<open>One pass through the body of the \<^verbatim>\<open>while\<close> loop of \<^verbatim>\<open>addPackageTxs\<close>, the
  loop condition included, up to line 488: \<open>Done\<close> when the condition fails and after
  \<^verbatim>\<open>return\<close> and \<^verbatim>\<open>break\<close>, \<open>Again\<close> after \<^verbatim>\<open>continue\<close>, and \<open>Commit\<close> with
  the package when it has passed every test and lines 490-506 are to follow.\<close>

definition addPackageTxs_body ::
  "chain_consts \<Rightarrow> node_env \<Rightarrow> CTxMemPool \<Rightarrow> selection \<Rightarrow> step" where
  "addPackageTxs_body c env pool s =
     (if \<not> (mi s < length (mapTx pool) \<or> mapModifiedTx s \<noteq> []) then Done s
      else if mi s < length (mapTx pool)
              \<and> SkipMapTxEntry (asm s) (mi s) (mapModifiedTx s) (failedTx s)
      then Again (s\<lparr> mi := mi s + 1 \<rparr>)
      else
        (case choose_candidate pool s of (it, using_modified, s) \<Rightarrow>
           if it \<in> set (inBlock (asm s)) then Aborted
           else
             (let (packageSize, packageFees, packageSigOpsCost) =
                    package_totals pool it using_modified
              in if packageFees < FeeRate_GetFee env (blockMinFeeRate (asm s)) packageSize
                 then Done s
                 else if \<not> TestPackage c (asm s) packageSize packageSigOpsCost then
                   (let s = drop_failed using_modified it s;
                        s = s\<lparr> nConsecutiveFailed := nConsecutiveFailed s + 1 \<rparr>
                    in if nConsecutiveFailed s > MAX_CONSECUTIVE_FAILURES
                          \<and> nBlockWeight (asm s) > u64_sub (nBlockMaxWeight (asm s)) 4000
                       then Done s
                       else Again s)
                 else
                   (let ancestors =
                          List.insert it
                            (onlyUnconfirmed (asm s) (CalculateMemPoolAncestors pool it))
                    in if \<not> TestPackageTransactions env pool (asm s) ancestors
                       then Again (drop_failed using_modified it s)
                       else Commit ancestors s))))"

datatype failure = AssertFailed | TestBlockValidityFailed | OutOfRange

text \<open>The \<^verbatim>\<open>while\<close> loop of \<^verbatim>\<open>addPackageTxs\<close>.\<close>

function addPackageTxs_loop ::
  "chain_consts \<Rightarrow> node_env \<Rightarrow> CTxMemPool \<Rightarrow> selection \<Rightarrow> failure + selection" where
  "addPackageTxs_loop c env pool s =
     (case addPackageTxs_body c env pool s of
        Again s' \<Rightarrow> addPackageTxs_loop c env pool s'
      | Commit ancestors s' \<Rightarrow> addPackageTxs_loop c env pool (commit_package pool ancestors s')
      | Done s' \<Rightarrow> Inr s'
      | Aborted \<Rightarrow> Inl AssertFailed)"
  by pat_completeness auto

text \<open>The progress measure of the loop: first the entries of the pool and of the
  modified set that are not in the block, then what is left of the index and of the
  modified set.\<close>

definition loop_measure :: "CTxMemPool \<Rightarrow> selection \<Rightarrow> nat \<times> nat" where
  "loop_measure pool s =
     (card (({0 ..< length (mapTx pool)} \<union> iter ` set (mapModifiedTx s))
              - set (inBlock (asm s))),
      (length (mapTx pool) - mi s) + length (mapModifiedTx s))"

text \<open>The state in which the loop starts (lines 383-400); the count that the first
  \<^verbatim>\<open>UpdatePackagesForAdded\<close> returns is dropped.\<close>

definition addPackageTxs_begin ::
  "CTxMemPool \<Rightarrow> BlockAssembler \<Rightarrow> int \<Rightarrow> int \<Rightarrow> selection" where
  "addPackageTxs_begin pool a nPackagesSelected0 nDescendantsUpdated0 =
     \<lparr> asm = a, mi = 0,
       mapModifiedTx = snd (UpdatePackagesForAdded pool (inBlock a) []),
       failedTx = [], nConsecutiveFailed = 0,
       nPackagesSelected = nPackagesSelected0,
       nDescendantsUpdated = nDescendantsUpdated0 \<rparr>"

text \<open>\<^verbatim>\<open>BlockAssembler::addPackageTxs\<close>\<close>

definition addPackageTxs ::
  "chain_consts \<Rightarrow> node_env \<Rightarrow> CTxMemPool \<Rightarrow> BlockAssembler \<Rightarrow> int \<Rightarrow> int
     \<Rightarrow> failure + selection" where
  "addPackageTxs c env pool a nPackagesSelected0 nDescendantsUpdated0 =
     addPackageTxs_loop c env pool
       (addPackageTxs_begin pool a nPackagesSelected0 nDescendantsUpdated0)"

text \<open>The states the selection passes through when it starts in \<open>s0\<close>: the state at
  each test of the loop condition, the state in which the loop is left, and, while a
  package is committed, the state after each \<^verbatim>\<open>AddToBlock\<close> of lines 497-501.\<close>

inductive visited ::
  "chain_consts \<Rightarrow> node_env \<Rightarrow> CTxMemPool \<Rightarrow> selection \<Rightarrow> selection \<Rightarrow> bool"
  for c env pool s0 where
    start: "visited c env pool s0 s0"
  | again: "visited c env pool s0 s \<Longrightarrow> addPackageTxs_body c env pool s = Again s'
            \<Longrightarrow> visited c env pool s0 s'"
  | leave: "visited c env pool s0 s \<Longrightarrow> addPackageTxs_body c env pool s = Done s'
            \<Longrightarrow> visited c env pool s0 s'"
  | adding: "visited c env pool s0 s \<Longrightarrow> addPackageTxs_body c env pool s = Commit ancestors s1
            \<Longrightarrow> k \<le> length (SortForBlock pool ancestors)
            \<Longrightarrow> visited c env pool s0
                  (add_sorted pool (take k (SortForBlock pool ancestors))
                     (s1\<lparr> nConsecutiveFailed := 0 \<rparr>))"
  | commit: "visited c env pool s0 s \<Longrightarrow> addPackageTxs_body c env pool s = Commit ancestors s1
            \<Longrightarrow> visited c env pool s0 (commit_package pool ancestors s1)"

subsection \<open>Consecutive failures of the budget test\<close>

text \<open>\<open>fails_budget_test c env pool s\<close>: the pass through the body that starts in \<open>s\<close>
  reaches line 454 and \<^verbatim>\<open>TestPackage\<close> refuses the package.\<close>

definition fails_budget_test ::
  "chain_consts \<Rightarrow> node_env \<Rightarrow> CTxMemPool \<Rightarrow> selection \<Rightarrow> bool" where
  "fails_budget_test c env pool s =
     ((mi s < length (mapTx pool) \<or> mapModifiedTx s \<noteq> [])
      \<and> \<not> (mi s < length (mapTx pool)
             \<and> SkipMapTxEntry (asm s) (mi s) (mapModifiedTx s) (failedTx s))
      \<and> (case choose_candidate pool s of (it, using_modified, s1) \<Rightarrow>
            it \<notin> set (inBlock (asm s1))
            \<and> (case package_totals pool it using_modified of
                  (packageSize, packageFees, packageSigOpsCost) \<Rightarrow>
                    \<not> packageFees < FeeRate_GetFee env (blockMinFeeRate (asm s1)) packageSize
                    \<and> \<not> TestPackage c (asm s1) packageSize packageSigOpsCost)))"

text \<open>\<open>rejections c env pool s0 n s\<close>: the loop gets from \<open>s0\<close> to \<open>s\<close> without adding a
  package to the block, and \<open>n\<close> packages have failed the budget test on the way.\<close>

inductive rejections ::
  "chain_consts \<Rightarrow> node_env \<Rightarrow> CTxMemPool \<Rightarrow> selection \<Rightarrow> nat \<Rightarrow> selection \<Rightarrow> bool"
  for c env pool s0 where
    none: "rejections c env pool s0 0 s0"
  | rejected: "rejections c env pool s0 n s \<Longrightarrow> addPackageTxs_body c env pool s = Again s'
               \<Longrightarrow> fails_budget_test c env pool s
               \<Longrightarrow> rejections c env pool s0 (Suc n) s'"
  | passed_over: "rejections c env pool s0 n s \<Longrightarrow> addPackageTxs_body c env pool s = Again s'
               \<Longrightarrow> \<not> fails_budget_test c env pool s
               \<Longrightarrow> rejections c env pool s0 n s'"

subsection \<open>Block time\<close>

text \<open>\<^verbatim>\<open>UpdateTime\<close>: the block with its new time and bits, and the returned
  difference.\<close>

definition UpdateTime :: "node_env \<Rightarrow> CBlock \<Rightarrow> CBlock \<times> int" where
  "UpdateTime env pblock =
     (let nOldTime = uint (nTime pblock);
          nNewTime = max (GetMedianTimePast (Tip env) + 1) (now_at_update env);
          pblock = (if nOldTime < nNewTime then pblock\<lparr> nTime := word_of_int nNewTime \<rparr>
                    else pblock);
          pblock = (if fPowAllowMinDifficultyBlocks env
                    then pblock\<lparr> nBits := GetNextTargetRequired env (IsProofOfStake env pblock) \<rparr>
                    else pblock)
      in (pblock, nNewTime - nOldTime))"

text \<open>\<^verbatim>\<open>GetMaxTransactionTime\<close>\<close>

definition GetMaxTransactionTime :: "CBlock \<Rightarrow> int" where
  "GetMaxTransactionTime pblock =
     fold (\<lambda>tx maxTransactionTime. max maxTransactionTime (uint (tx_nTime tx))) (vtx pblock) 0"

subsection \<open>CreateNewBlock\<close>

text \<open>The process-wide variables \<^verbatim>\<open>CreateNewBlock\<close> writes: the global
  \<^verbatim>\<open>nLastCoinStakeSearchInterval\<close>, the function's static
  \<^verbatim>\<open>nLastCoinStakeSearchTime\<close> (\<open>None\<close> until the first call initialises it) and the
  static members \<^verbatim>\<open>m_last_block_num_txs\<close> and \<^verbatim>\<open>m_last_block_weight\<close>.\<close>

record globals =
  nLastCoinStakeSearchInterval :: int
  nLastCoinStakeSearchTime :: "int option"
  m_last_block_num_txs :: "nat option"
  m_last_block_weight :: "nat option"

text \<open>The value of the static \<^verbatim>\<open>nLastCoinStakeSearchTime\<close> once control has passed its
  declaration: \<^verbatim>\<open>GetAdjustedTime()\<close> of that moment the first time, the stored value
  afterwards.\<close>

definition search_time_static :: "node_env \<Rightarrow> globals \<Rightarrow> int" where
  "search_time_static env g =
     (case nLastCoinStakeSearchTime g of None \<Rightarrow> now_at_static_init env | Some t \<Rightarrow> t)"

text \<open>The wallet: \<^verbatim>\<open>CreateCoinStake(pwallet, nBits, nSearchInterval, txNew, nFees)\<close>
  returns its verdict and leaves the transaction and the fee total it was handed by
  reference. (\<^verbatim>\<open>AbandonOrphanedCoinstakes\<close> changes the wallet only.)\<close>

record CWallet =
  CreateCoinStake ::
    "nat \<Rightarrow> int \<Rightarrow> CMutableTransaction \<Rightarrow> CAmount \<Rightarrow> bool \<times> CMutableTransaction \<times> CAmount"

definition CTxIn_new :: CTxIn where
  "CTxIn_new = \<lparr> prevout_hash = 0, scriptSig = [] \<rparr>"

definition CTxOut_new :: CTxOut where
  "CTxOut_new = \<lparr> nValue = - 1, scriptPubKey = [] \<rparr>"

definition SetEmpty :: "CTxOut \<Rightarrow> CTxOut" where
  "SetEmpty out = out\<lparr> nValue := 0, scriptPubKey := [] \<rparr>"

definition resize1 :: "'a list \<Rightarrow> 'a \<Rightarrow> 'a list" where
  "resize1 xs dflt = take 1 (xs @ [dflt])"

definition on_block :: "(CBlock \<Rightarrow> CBlock) \<Rightarrow> BlockAssembler \<Rightarrow> BlockAssembler" where
  "on_block f a = a\<lparr> pblocktemplate := (pblocktemplate a)\<lparr> block := f (block (pblocktemplate a)) \<rparr> \<rparr>"

definition pblock :: "BlockAssembler \<Rightarrow> CBlock" where
  "pblock a = block (pblocktemplate a)"

text \<open>Lines 129-161: the reset, the new template, the coinbase transaction (with its
  proof-of-work output when there is no wallet) and the dummy first entries.\<close>

definition CreateNewBlock_begin ::
  "node_env \<Rightarrow> BlockAssembler \<Rightarrow> CScript \<Rightarrow> bool \<Rightarrow> BlockAssembler \<times> CMutableTransaction" where
  "CreateNewBlock_begin env a scriptPubKeyIn proof_of_work =
     (let a = resetBlock a;
          a = a\<lparr> pblocktemplate := CBlockTemplate_new \<rparr>;
          a = on_block (\<lambda>b. b\<lparr> nTime := word_of_int (now_at_start env) \<rparr>) a;
          a = a\<lparr> nHeight := tip_nHeight (Tip env) + 1 \<rparr>;
          coinbaseTx = new_coinbaseTx env;
          coinbaseTx = coinbaseTx\<lparr> vin := resize1 (vin coinbaseTx) CTxIn_new \<rparr>;
          coinbaseTx = coinbaseTx\<lparr> vin := (vin coinbaseTx)[0 := (vin coinbaseTx ! 0)\<lparr> prevout_hash := 0 \<rparr>] \<rparr>;
          coinbaseTx = coinbaseTx\<lparr> vout := resize1 (vout coinbaseTx) CTxOut_new \<rparr>;
          a = (if proof_of_work
               then on_block (\<lambda>b. b\<lparr> nBits := GetNextTargetRequired env False \<rparr>) a else a);
          coinbaseTx =
            (if proof_of_work
             then coinbaseTx\<lparr> vout := (vout coinbaseTx)[0 :=
                    \<lparr> nValue = nFees a + GetBlockSubsidy env (nHeight a),
                      scriptPubKey = scriptPubKeyIn \<rparr>] \<rparr>
             else coinbaseTx);
          a = on_block (\<lambda>b. b\<lparr> vtx := vtx b @ [null_tx] \<rparr>) a;
          a = a\<lparr> pblocktemplate := (pblocktemplate a)
                  \<lparr> vTxFees := vTxFees (pblocktemplate a) @ [- 1],
                    vTxSigOpsCost := vTxSigOpsCost (pblocktemplate a) @ [- 1] \<rparr> \<rparr>
      in (a, coinbaseTx))"

text \<open>Lines 174-175: the new \<^verbatim>\<open>txCoinStake\<close> with its time masked.\<close>

definition masked_txCoinStake :: "node_env \<Rightarrow> CMutableTransaction" where
  "masked_txCoinStake env =
     (new_txCoinStake env)
       \<lparr> tx_nTime := tx_nTime (new_txCoinStake env) AND NOT (nStakeTimestampMask env) \<rparr>"

text \<open>Lines 167-195, for a wallet \<open>w\<close>: the search for a coinstake. The result is the
  value of \<^verbatim>\<open>*pfPoSCancel\<close>, the assembler, the coinbase transaction and the process-wide
  variables.\<close>

definition stake_search ::
  "node_env \<Rightarrow> CWallet \<Rightarrow> BlockAssembler \<Rightarrow> CMutableTransaction \<Rightarrow> globals
     \<Rightarrow> bool \<times> BlockAssembler \<times> CMutableTransaction \<times> globals" where
  "stake_search env w a coinbaseTx g =
     (let a = on_block (\<lambda>b. b\<lparr> nBits := GetNextTargetRequired env True \<rparr>) a;
          txCoinStake = masked_txCoinStake env;
          nSearchTime = uint (tx_nTime txCoinStake);
          last = search_time_static env g
      in if nSearchTime > last then
           (case CreateCoinStake w (nBits (pblock a)) 1 txCoinStake (nFees a) of
              (found, txCoinStake, fees) \<Rightarrow>
                (let a = a\<lparr> nFees := fees \<rparr>;
                     g = g\<lparr> nLastCoinStakeSearchInterval := nSearchTime - last,
                            nLastCoinStakeSearchTime := Some nSearchTime \<rparr>
                 in if found \<and> uint (tx_nTime txCoinStake) \<ge> GetMedianTimePast (Tip env) + 1
                    then (False,
                          on_block (\<lambda>b. b\<lparr> nTime := tx_nTime txCoinStake,
                                           vtx := vtx b @ [MakeTransactionRef (ComputeHash env) txCoinStake] \<rparr>) a,
                          coinbaseTx\<lparr> vout := (vout coinbaseTx)[0 := SetEmpty (vout coinbaseTx ! 0)],
                                      tx_nTime := tx_nTime txCoinStake \<rparr>,
                          g)
                    else (True, a, coinbaseTx, g)))
         else (True, a, coinbaseTx, g\<lparr> nLastCoinStakeSearchTime := Some last \<rparr>))"

text \<open>What a call hands back: the returned pointer (\<open>None\<close> for \<^verbatim>\<open>nullptr\<close>), the
  assembler after the call, the process-wide variables, the caller's \<^verbatim>\<open>*pfPoSCancel\<close>
  and what was stored through \<^verbatim>\<open>pFees\<close>.\<close>

record CreateNewBlock_result =
  returned :: "CBlockTemplate option"
  assembler :: BlockAssembler
  statics :: globals
  pfPoSCancel :: bool
  pFees :: "CAmount option"

text \<open>Lines 198-219: version, lock time cutoff and witness flag. The \<^verbatim>\<open>int64_t\<close> that
  \<^verbatim>\<open>GetArg\<close> returns is converted to the 32-bit \<^verbatim>\<open>nVersion\<close>.\<close>

definition prepare_selection :: "node_env \<Rightarrow> BlockAssembler \<Rightarrow> BlockAssembler" where
  "prepare_selection env a =
     (let a = on_block (\<lambda>b. b\<lparr> nVersion := ComputeBlockVersion env \<rparr>) a;
          a = (if MineBlocksOnDemand env
               then on_block (\<lambda>b. b\<lparr> nVersion :=
                      i32_of_int (GetArg (arg_blockversion env) (nVersion b)) \<rparr>) a
               else a);
          nMedianTimePast = GetMedianTimePast (Tip env);
          a = a\<lparr> nLockTimeCutoff := (if locktime_median_time_past env then nMedianTimePast
                                      else uint (nTime (pblock a))) \<rparr>
      in a\<lparr> fIncludeWitness := DeploymentActiveAfter_SEGWIT env \<rparr>)"

text \<open>Lines 230-234: the coinbase takes the first slot (\<^verbatim>\<open>GenerateCoinbaseCommitment\<close>
  rewrites it and returns the commitment) and the first fee entry is filled in.\<close>

definition place_coinbase ::
  "node_env \<Rightarrow> CMutableTransaction \<Rightarrow> BlockAssembler \<Rightarrow> BlockAssembler" where
  "place_coinbase env coinbaseTx a =
     (let coinbaseTx = coinbaseTx\<lparr> vin := (vin coinbaseTx)[0 :=
                         (vin coinbaseTx ! 0)\<lparr> scriptSig := [nHeight a, 0] \<rparr>] \<rparr>;
          a = on_block (\<lambda>b. b\<lparr> vtx := (vtx b)[0 := MakeTransactionRef (ComputeHash env) coinbaseTx] \<rparr>) a;
          a = (if fIncludeWitness a
               then (case GenerateCoinbaseCommitment env (pblock a) of
                       (coinbase, commitment) \<Rightarrow>
                         (let a = on_block (\<lambda>b. b\<lparr> vtx := (vtx b)[0 := coinbase] \<rparr>) a
                          in a\<lparr> pblocktemplate :=
                                  (pblocktemplate a)\<lparr> vchCoinbaseCommitment := commitment \<rparr> \<rparr>))
               else a)
      in a\<lparr> pblocktemplate := (pblocktemplate a)
              \<lparr> vTxFees := (vTxFees (pblocktemplate a))[0 := - nFees a] \<rparr> \<rparr>)"

text \<open>Lines 242-248: the header.\<close>

definition fill_header :: "chain_consts \<Rightarrow> node_env \<Rightarrow> BlockAssembler \<Rightarrow> BlockAssembler" where
  "fill_header c env a =
     (let a = on_block (\<lambda>b. b\<lparr> hashPrevBlock := GetBlockHash (Tip env) \<rparr>) a;
          a = on_block (\<lambda>b. b\<lparr> nTime := word_of_int
                              (max (GetMedianTimePast (Tip env) + 1) (GetMaxTransactionTime b)) \<rparr>) a;
          a = (if \<not> IsProofOfStake env (pblock a)
               then on_block (\<lambda>b. fst (UpdateTime env b)) a else a);
          a = on_block (\<lambda>b. b\<lparr> nNonce := 0 \<rparr>) a
      in a\<lparr> pblocktemplate := (pblocktemplate a)
              \<lparr> vTxSigOpsCost := (vTxSigOpsCost (pblocktemplate a))[0 :=
                  int (WITNESS_SCALE_FACTOR c) * GetLegacySigOpCount env (vtx (pblock a) ! 0)] \<rparr> \<rparr>)"

text \<open>Lines 198-258: the selection between the steps above, the two static members,
  the validity test of a proof-of-work block and the return.\<close>

definition CreateNewBlock_finish ::
  "chain_consts \<Rightarrow> node_env \<Rightarrow> CTxMemPool \<Rightarrow> BlockAssembler \<Rightarrow> CMutableTransaction \<Rightarrow> globals
     \<Rightarrow> bool \<Rightarrow> failure + CreateNewBlock_result" where
  "CreateNewBlock_finish c env pool a coinbaseTx g cancel =
     (case addPackageTxs c env pool (prepare_selection env a) 0 0 of
        Inl e \<Rightarrow> Inl e
      | Inr s \<Rightarrow>
          (let g = g\<lparr> m_last_block_num_txs := Some (nBlockTx (asm s)),
                      m_last_block_weight := Some (nBlockWeight (asm s)) \<rparr>;
               a = fill_header c env (place_coinbase env coinbaseTx (asm s))
           in if \<not> IsProofOfStake env (pblock a) \<and> \<not> TestBlockValidity env (pblock a)
              then Inl TestBlockValidityFailed
              else Inr \<lparr> returned = Some (pblocktemplate a), assembler = a, statics = g,
                         pfPoSCancel = cancel, pFees = Some (nFees a) \<rparr>))"

text \<open>Lines 129-196, built with \<^verbatim>\<open>ENABLE_WALLET\<close>: either the early return of a
  cancelled search (\<open>Inl\<close>), or the assembler, the coinbase transaction, the
  process-wide variables and \<^verbatim>\<open>*pfPoSCancel\<close> with which the call goes on. \<open>pwallet\<close> is
  \<open>None\<close> for a null pointer; \<open>cancel0\<close> is what \<^verbatim>\<open>*pfPoSCancel\<close> holds before the call.
  The static \<^verbatim>\<open>nLastCoinStakeSearchTime\<close> is initialised when control first passes its
  declaration.\<close>

definition CreateNewBlock_setup ::
  "node_env \<Rightarrow> BlockAssembler \<Rightarrow> globals \<Rightarrow> CScript \<Rightarrow> CWallet option \<Rightarrow> bool
     \<Rightarrow> CreateNewBlock_result + BlockAssembler \<times> CMutableTransaction \<times> globals \<times> bool" where
  "CreateNewBlock_setup env a g scriptPubKeyIn pwallet cancel0 =
     (case CreateNewBlock_begin env a scriptPubKeyIn (pwallet = None) of
        (a, coinbaseTx) \<Rightarrow>
          (case pwallet of
             None \<Rightarrow>
               Inr (a, coinbaseTx,
                    g\<lparr> nLastCoinStakeSearchTime := Some (search_time_static env g) \<rparr>,
                    cancel0)
           | Some w \<Rightarrow>
               (case stake_search env w a coinbaseTx g of
                  (cancel, a, coinbaseTx, g) \<Rightarrow>
                    if cancel
                    then Inl \<lparr> returned = None, assembler = a, statics = g,
                               pfPoSCancel = cancel, pFees = None \<rparr>
                    else Inr (on_block (\<lambda>b. b\<lparr> nFlags := BLOCK_PROOF_OF_STAKE env \<rparr>) a,
                              coinbaseTx, g, cancel))))"

text \<open>\<^verbatim>\<open>BlockAssembler::CreateNewBlock\<close>\<close>

definition CreateNewBlock ::
  "chain_consts \<Rightarrow> node_env \<Rightarrow> CTxMemPool \<Rightarrow> BlockAssembler \<Rightarrow> globals \<Rightarrow> CScript
     \<Rightarrow> CWallet option \<Rightarrow> bool \<Rightarrow> failure + CreateNewBlock_result" where
  "CreateNewBlock c env pool a g scriptPubKeyIn pwallet cancel0 =
     (case CreateNewBlock_setup env a g scriptPubKeyIn pwallet cancel0 of
        Inl r \<Rightarrow> Inr r
      | Inr (a, coinbaseTx, g, cancel) \<Rightarrow>
          CreateNewBlock_finish c env pool a coinbaseTx g cancel)"

subsection \<open>Submission of a proof-of-stake block\<close>

text \<open>What \<^verbatim>\<open>ProcessBlockFound\<close> consults: the hash of the tip of the active chain when
  it holds \<^verbatim>\<open>cs_main\<close>, the kernel check and the verdict of
  \<^verbatim>\<open>ChainstateManager::ProcessNewBlock\<close>.\<close>

record submit_env =
  tip_hash :: uint256
  CheckProofOfStake :: "uint256 \<Rightarrow> CTransaction \<Rightarrow> nat \<Rightarrow> 32 word \<Rightarrow> bool"
  ProcessNewBlock :: "CBlock \<Rightarrow> bool"

text \<open>The outcome: the returned value, the messages given to \<^verbatim>\<open>error(...)\<close> and the
  blocks handed to \<^verbatim>\<open>ProcessNewBlock\<close>.\<close>

record submit_result =
  accepted :: bool
  errors :: "string list"
  handed_over :: "CBlock list"

text \<open>\<^verbatim>\<open>ProcessBlockFound\<close>. Reading \<^verbatim>\<open>vtx[1]\<close> of a block with fewer than two
  transactions is out of range.\<close>

definition ProcessBlockFound :: "submit_env \<Rightarrow> CBlock \<Rightarrow> failure + submit_result" where
  "ProcessBlockFound senv b =
     (if length (vtx b) < 2 then Inl OutOfRange
      else if \<not> CheckProofOfStake senv (hashPrevBlock b) (vtx b ! 1) (nBits b)
                  (if tx_nTime (vtx b ! 1) \<noteq> 0 then tx_nTime (vtx b ! 1) else nTime b)
      then Inr \<lparr> accepted = False,
                 errors = [''ProcessBlockFound(): proof-of-stake checking failed''],
                 handed_over = [] \<rparr>
      else if hashPrevBlock b \<noteq> tip_hash senv
      then Inr \<lparr> accepted = False,
                 errors = [''ProcessBlockFound(): generated block is stale''],
                 handed_over = [] \<rparr>
      else if \<not> ProcessNewBlock senv b
      then Inr \<lparr> accepted = False,
                 errors = [''ProcessBlockFound(): block not accepted''],
                 handed_over = [b] \<rparr>
      else Inr \<lparr> accepted = True, errors = [], handed_over = [b] \<rparr>)"

subsection \<open>What the assembler relies on in the mempool\<close>

text \<open>The mempool keeps these facts about its entries; \<^verbatim>\<open>miner.cpp\<close> takes them for
  granted (see the comment in \<^verbatim>\<open>SortForBlock\<close>).
  \<^item> \<open>ancestors_closed\<close>: the ancestors of an entry are entries of the pool, without
    repetition and without the entry itself; an ancestor's ancestors are among them,
    and an ancestor's ancestor count is smaller.
  \<^item> \<open>totals_consistent\<close>: size and sigops ``with ancestors'' are the sums over the
    entry and its ancestors; sigop costs are not negative; the weight of a transaction
    is at most \<open>WITNESS_SCALE_FACTOR\<close> times its virtual size; and the totals are
    far from the range of 64 bits.
  \<^item> \<open>spends_within_ancestors\<close>: an entry that spends an output of another entry of
    the pool has that entry among its ancestors.\<close>

definition ancestors_closed :: "CTxMemPool \<Rightarrow> bool" where
  "ancestors_closed pool =
     (\<forall>h \<in> set [0 ..< length (mapTx pool)].
        distinct (CalculateMemPoolAncestors pool h)
        \<and> h \<notin> set (CalculateMemPoolAncestors pool h)
        \<and> (\<forall>a \<in> set (CalculateMemPoolAncestors pool h).
              a < length (mapTx pool)
              \<and> set (CalculateMemPoolAncestors pool a) \<subseteq> set (CalculateMemPoolAncestors pool h)
              \<and> GetCountWithAncestors (entry pool a) < GetCountWithAncestors (entry pool h)))"


definition spent_hashes :: "'a CMutableTransaction_scheme \<Rightarrow> uint256 set" where
  "spent_hashes tx = prevout_hash ` set (vin tx)"

definition spends_within_ancestors :: "CTxMemPool \<Rightarrow> bool" where
  "spends_within_ancestors pool =
     (\<forall>h \<in> set [0 ..< length (mapTx pool)]. \<forall>b \<in> set [0 ..< length (mapTx pool)].
        GetHash (GetTx (entry pool b)) \<in> spent_hashes (GetTx (entry pool h))
          \<longrightarrow> b \<in> set (CalculateMemPoolAncestors pool h))"

subsection \<open>Invariants of the selection\<close>

text \<open>\<open>assembled pool a0 hs a\<close>: the assembler \<open>a\<close> is \<open>a0\<close> with the entries \<open>hs\<close> added in
  this order.\<close>

definition assembled ::
  "CTxMemPool \<Rightarrow> BlockAssembler \<Rightarrow> txiter list \<Rightarrow> BlockAssembler \<Rightarrow> bool" where
  "assembled pool a0 hs a =
     (vtx (pblock a) = vtx (pblock a0) @ map (\<lambda>h. GetTx (entry pool h)) hs
      \<and> vTxFees (pblocktemplate a)
          = vTxFees (pblocktemplate a0) @ map (\<lambda>h. GetFee (entry pool h)) hs
      \<and> vTxSigOpsCost (pblocktemplate a)
          = vTxSigOpsCost (pblocktemplate a0) @ map (\<lambda>h. GetSigOpCost (entry pool h)) hs
      \<and> nFees a = nFees a0 + sum_list (map (\<lambda>h. GetFee (entry pool h)) hs)
      \<and> nBlockWeight a
          = u64 (nBlockWeight a0 + sum_list (map (\<lambda>h. GetTxWeight (entry pool h)) hs))
      \<and> nBlockSigOpsCost a
          = u64_of_int (int (nBlockSigOpsCost a0)
                          + sum_list (map (\<lambda>h. GetSigOpCost (entry pool h)) hs))
      \<and> set (inBlock a) = set (inBlock a0) \<union> set hs
      \<and> nBlockMaxWeight a = nBlockMaxWeight a0
      \<and> blockMinFeeRate a = blockMinFeeRate a0
      \<and> nHeight a = nHeight a0)"

text \<open>\<open>parents_first pool hs\<close>: the entries \<open>hs\<close> are entries of the pool, each once, and
  every ancestor of an entry stands before it.\<close>

definition parents_first :: "CTxMemPool \<Rightarrow> txiter list \<Rightarrow> bool" where
  "parents_first pool hs =
     (distinct hs \<and> set hs \<subseteq> {0 ..< length (mapTx pool)}
      \<and> (\<forall>k < length hs. set (CalculateMemPoolAncestors pool (hs ! k)) \<subseteq> set (take k hs)))"






section \<open>Example inputs\<close>

text \<open>Concrete values on which the theorems below are exercised. The constants are
  those of the upstream \<^verbatim>\<open>consensus.h\<close> and \<^verbatim>\<open>policy.h\<close>.\<close>

definition ex_consts :: chain_consts where
  "ex_consts = \<lparr> MAX_BLOCK_WEIGHT = 4000000, MAX_BLOCK_SIGOPS_COST = 80000,
                  DEFAULT_BLOCK_MAX_WEIGHT = 3996000, WITNESS_SCALE_FACTOR = 4,
                  DEFAULT_BLOCK_MIN_TX_FEE = 1000 \<rparr>"

definition ex_raw :: BlockAssembler where
  "ex_raw = \<lparr> blockMinFeeRate = 0, nBlockMaxWeight = 0, pblocktemplate = CBlockTemplate_new,
               inBlock = [], nBlockWeight = 0, nBlockSigOpsCost = 0, nBlockTx = 0, nFees = 0,
               fIncludeWitness = False, nHeight = 0, nLockTimeCutoff = 0 \<rparr>"

definition ex_tx :: "uint256 \<Rightarrow> uint256 list \<Rightarrow> CTransaction" where
  "ex_tx h spends =
     \<lparr> vin = map (\<lambda>p. \<lparr> prevout_hash = p, scriptSig = [] \<rparr>) spends,
       vout = [\<lparr> nValue = 1, scriptPubKey = [] \<rparr>], tx_nTime = 1500, HasWitness = False,
       GetHash = h \<rparr>"

text \<open>A pool of four entries in the order of their ancestor fee rates: \<open>A\<close> (hash 10)
  on its own, the child \<open>C\<close> (hash 30) that pays for its parent \<open>P\<close> (hash 20), that
  parent, and a cheap child \<open>D\<close> (hash 40) of \<open>A\<close>.\<close>

definition ex_A :: CTxMemPoolEntry where
  "ex_A = \<lparr> GetTx = ex_tx 10 [1], GetFee = 2500, GetModifiedFee = 2500, GetTxSize = 250,
             GetTxWeight = 1000, GetSigOpCost = 4, GetCountWithAncestors = 1,
             GetSizeWithAncestors = 250, GetModFeesWithAncestors = 2500,
             GetSigOpCostWithAncestors = 4 \<rparr>"

definition ex_C :: CTxMemPoolEntry where
  "ex_C = \<lparr> GetTx = ex_tx 30 [20], GetFee = 4000, GetModifiedFee = 4000, GetTxSize = 250,
             GetTxWeight = 1000, GetSigOpCost = 4, GetCountWithAncestors = 2,
             GetSizeWithAncestors = 500, GetModFeesWithAncestors = 4000,
             GetSigOpCostWithAncestors = 8 \<rparr>"

definition ex_P :: CTxMemPoolEntry where
  "ex_P = \<lparr> GetTx = ex_tx 20 [2], GetFee = 0, GetModifiedFee = 0, GetTxSize = 250,
             GetTxWeight = 1000, GetSigOpCost = 4, GetCountWithAncestors = 1,
             GetSizeWithAncestors = 250, GetModFeesWithAncestors = 0,
             GetSigOpCostWithAncestors = 4 \<rparr>"

definition ex_D :: CTxMemPoolEntry where
  "ex_D = \<lparr> GetTx = ex_tx 40 [10], GetFee = 300, GetModifiedFee = 300, GetTxSize = 200,
             GetTxWeight = 800, GetSigOpCost = 4, GetCountWithAncestors = 2,
             GetSizeWithAncestors = 450, GetModFeesWithAncestors = 2800,
             GetSigOpCostWithAncestors = 8 \<rparr>"

definition ex_pool :: CTxMemPool where
  "ex_pool =
     \<lparr> mapTx = [ex_A, ex_C, ex_P, ex_D],
       CalculateMemPoolAncestors = (\<lambda>it. if it = 1 then [2] else if it = 3 then [0] else []),
       CompareTxMemPoolEntryByAncestorFee =
         (\<lambda>a b. nModFeesWithAncestors a * int (nSizeWithAncestors b)
                  > nModFeesWithAncestors b * int (nSizeWithAncestors a)) \<rparr>"

definition ex_env :: node_env where
  "ex_env =
     \<lparr> Tip = \<lparr> tip_nHeight = 100, GetMedianTimePast = 1000, GetBlockHash = 77 \<rparr>,
       now_at_start = 1600, now_at_static_init = 1500, now_at_update = 1601,
       new_coinbaseTx = \<lparr> vin = [], vout = [], tx_nTime = 1600, HasWitness = False \<rparr>,
       new_txCoinStake = \<lparr> vin = [], vout = [], tx_nTime = 1607, HasWitness = False \<rparr>,
       ComputeHash = (\<lambda>mtx. 9000 + length (vin mtx) + length (vout mtx)),
       GetNextTargetRequired = (\<lambda>pos. if pos then 5 else 6),
       GetBlockSubsidy = (\<lambda>h. 50),
       ComputeBlockVersion = 4,
       MineBlocksOnDemand = False,
       arg_blockversion = None,
       locktime_median_time_past = True,
       DeploymentActiveAfter_SEGWIT = False,
       GenerateCoinbaseCommitment = (\<lambda>b. (vtx b ! 0, [])),
       GetLegacySigOpCount = (\<lambda>tx. 1),
       TestBlockValidity = (\<lambda>b. True),
       IsProofOfStake = (\<lambda>b. nFlags b = 1),
       FeeRate_GetFee = (\<lambda>rate size. rate * int size div 1000),
       IsFinalTx = (\<lambda>tx h t. True),
       nStakeTimestampMask = 15,
       fPowAllowMinDifficultyBlocks = False,
       BLOCK_PROOF_OF_STAKE = 1 \<rparr>"

definition ex_globals :: globals where
  "ex_globals = \<lparr> nLastCoinStakeSearchInterval = 0, nLastCoinStakeSearchTime = Some 1584,
                   m_last_block_num_txs = None, m_last_block_weight = None \<rparr>"

text \<open>A wallet that finds no kernel, and one that returns a coinstake spending the
  confirmed output 500.\<close>

definition ex_wallet_none :: CWallet where
  "ex_wallet_none = \<lparr> CreateCoinStake = (\<lambda>bits interval tx fees. (False, tx, fees)) \<rparr>"

definition ex_wallet_found :: CWallet where
  "ex_wallet_found =
     \<lparr> CreateCoinStake = (\<lambda>bits interval tx fees.
         (True,
          tx\<lparr> vin := [\<lparr> prevout_hash = 500, scriptSig = [] \<rparr>],
              vout := [\<lparr> nValue = 0, scriptPubKey = [] \<rparr>, \<lparr> nValue = 60, scriptPubKey = [1] \<rparr>] \<rparr>,
          fees)) \<rparr>"

definition ex_options :: Options where
  "ex_options = \<lparr> opt_blockMinFeeRate = 1000, opt_nBlockMaxWeight = 3996000 \<rparr>"

definition ex_asm :: BlockAssembler where
  "ex_asm = BlockAssembler_ctor ex_consts ex_options ex_raw"

definition ex_template_pow :: CBlockTemplate where
  "ex_template_pow =
     \<lparr> block =
         \<lparr> nVersion = 4, hashPrevBlock = 77, nTime = 1601, nBits = 6, nNonce = 0, nFlags = 0,
           vtx = [ \<lparr> vin = [\<lparr> prevout_hash = 0, scriptSig = [101, 0] \<rparr>],
                    vout = [\<lparr> nValue = 50, scriptPubKey = [7] \<rparr>],
                    tx_nTime = 1600, HasWitness = False, GetHash = 9002 \<rparr>,
                  ex_tx 10 [1], ex_tx 20 [2], ex_tx 30 [20], ex_tx 40 [10] ] \<rparr>,
       vTxFees = [- 6800, 2500, 0, 4000, 300],
       vTxSigOpsCost = [4, 4, 4, 4, 4],
       vchCoinbaseCommitment = [] \<rparr>"

definition ex_result_pow :: CreateNewBlock_result where
  "ex_result_pow =
     \<lparr> returned = Some ex_template_pow,
       assembler =
         \<lparr> blockMinFeeRate = 1000, nBlockMaxWeight = 3996000, pblocktemplate = ex_template_pow,
           inBlock = [3, 1, 2, 0], nBlockWeight = 7800, nBlockSigOpsCost = 416, nBlockTx = 4,
           nFees = 6800, fIncludeWitness = False, nHeight = 101, nLockTimeCutoff = 1000 \<rparr>,
       statics = ex_globals\<lparr> m_last_block_num_txs := Some 4, m_last_block_weight := Some 7800 \<rparr>,
       pfPoSCancel = False, pFees = Some 6800 \<rparr>"

definition ex_template_pos :: CBlockTemplate where
  "ex_template_pos =
     \<lparr> block =
         \<lparr> nVersion = 4, hashPrevBlock = 77, nTime = 1600, nBits = 5, nNonce = 0, nFlags = 1,
           vtx = [ \<lparr> vin = [\<lparr> prevout_hash = 0, scriptSig = [101, 0] \<rparr>],
                    vout = [\<lparr> nValue = 0, scriptPubKey = [] \<rparr>],
                    tx_nTime = 1600, HasWitness = False, GetHash = 9002 \<rparr>,
                  \<lparr> vin = [\<lparr> prevout_hash = 500, scriptSig = [] \<rparr>],
                    vout = [\<lparr> nValue = 0, scriptPubKey = [] \<rparr>,
                            \<lparr> nValue = 60, scriptPubKey = [1] \<rparr>],
                    tx_nTime = 1600, HasWitness = False, GetHash = 9003 \<rparr>,
                  ex_tx 10 [1], ex_tx 20 [2], ex_tx 30 [20], ex_tx 40 [10] ] \<rparr>,
       vTxFees = [- 6800, 2500, 0, 4000, 300],
       vTxSigOpsCost = [4, 4, 4, 4, 4],
       vchCoinbaseCommitment = [] \<rparr>"

definition ex_result_pos :: CreateNewBlock_result where
  "ex_result_pos =
     \<lparr> returned = Some ex_template_pos,
       assembler =
         \<lparr> blockMinFeeRate = 1000, nBlockMaxWeight = 3996000, pblocktemplate = ex_template_pos,
           inBlock = [3, 1, 2, 0], nBlockWeight = 7800, nBlockSigOpsCost = 416, nBlockTx = 4,
           nFees = 6800, fIncludeWitness = False, nHeight = 101, nLockTimeCutoff = 1000 \<rparr>,
       statics = \<lparr> nLastCoinStakeSearchInterval = 16, nLastCoinStakeSearchTime = Some 1600,
                   m_last_block_num_txs = Some 4, m_last_block_weight = Some 7800 \<rparr>,
       pfPoSCancel = False, pFees = Some 6800 \<rparr>"


definition ex_senv :: submit_env where
  "ex_senv = \<lparr> tip_hash = 78, CheckProofOfStake = (\<lambda>prev tx bits t. True),
                ProcessNewBlock = (\<lambda>b. True) \<rparr>"

definition ex_stale_block :: CBlock where
  "ex_stale_block = block ex_template_pos"

text \<open>A node whose kernel check refuses the coinstake.\<close>

definition ex_senv_kernel_fails :: submit_env where
  "ex_senv_kernel_fails =
     \<lparr> tip_hash = 78, CheckProofOfStake = (\<lambda>prev tx bits t. False),
       ProcessNewBlock = (\<lambda>b. True) \<rparr>"

text \<open>A node whose clock is past the range of the 32-bit time field, a block of time
  10, and a node whose tip has the last median time past that the field can hold.\<close>

definition ex_env_clock_2106 :: node_env where
  "ex_env_clock_2106 = ex_env\<lparr> now_at_update := 4294967301 \<rparr>"

definition ex_block_10 :: CBlock where
  "ex_block_10 = CBlock_new\<lparr> nTime := 10 \<rparr>"

definition ex_env_mtp_2106 :: node_env where
  "ex_env_mtp_2106 =
     ex_env\<lparr> Tip := \<lparr> tip_nHeight = 100, GetMedianTimePast = 4294967295, GetBlockHash = 77 \<rparr> \<rparr>"

text \<open>A pool of a thousand large entries, each on its own and each too heavy for what
  is left of a block of weight 7000, and one last entry after them, of a lower fee
  rate.\<close>

definition ex_big :: "nat \<Rightarrow> CTxMemPoolEntry" where
  "ex_big k = \<lparr> GetTx = ex_tx (2000 + k) [5000 + k], GetFee = 5000, GetModifiedFee = 5000,
                 GetTxSize = 1000, GetTxWeight = 4000, GetSigOpCost = 4,
                 GetCountWithAncestors = 1, GetSizeWithAncestors = 1000,
                 GetModFeesWithAncestors = 5000, GetSigOpCostWithAncestors = 4 \<rparr>"

definition ex_small :: CTxMemPoolEntry where
  "ex_small = \<lparr> GetTx = ex_tx 10 [1], GetFee = 200, GetModifiedFee = 200,
                 GetTxSize = 100, GetTxWeight = 400, GetSigOpCost = 4,
                 GetCountWithAncestors = 1, GetSizeWithAncestors = 100,
                 GetModFeesWithAncestors = 200, GetSigOpCostWithAncestors = 4 \<rparr>"

definition ex_full_pool :: "CTxMemPoolEntry \<Rightarrow> CTxMemPool" where
  "ex_full_pool last_entry =
     \<lparr> mapTx = map ex_big [0 ..< 1000] @ [last_entry],
       CalculateMemPoolAncestors = (\<lambda>it. []),
       CompareTxMemPoolEntryByAncestorFee =
         (\<lambda>a b. nModFeesWithAncestors a * int (nSizeWithAncestors b)
                  > nModFeesWithAncestors b * int (nSizeWithAncestors a)) \<rparr>"

text \<open>The assembler at the start of the selection of a proof-of-work call, with a
  block weight limit of 7000.\<close>

definition ex_tight_asm :: BlockAssembler where
  "ex_tight_asm =
     prepare_selection ex_env
       (fst (CreateNewBlock_begin ex_env
               (BlockAssembler_ctor ex_consts
                  \<lparr> opt_blockMinFeeRate = 1000, opt_nBlockMaxWeight = 7000 \<rparr> ex_raw)
               [7] True))"

text \<open>The state of the loop after \<open>k\<close> of the large entries.\<close>

definition ex_rejected :: "CTxMemPoolEntry \<Rightarrow> nat \<Rightarrow> selection" where
  "ex_rejected last_entry k =
     (addPackageTxs_begin (ex_full_pool last_entry) ex_tight_asm 0 0)
       \<lparr> mi := k, nConsecutiveFailed := int k \<rparr>"

definition ex_small_added :: selection where
  "ex_small_added =
     commit_package (ex_full_pool ex_small) [1000] ((ex_rejected ex_small 1000)\<lparr> mi := 1001 \<rparr>)"



section \<open>Termination of the selection loop\<close>

lemma mod_begin_mem: "mod_begin pool m = Some e \<Longrightarrow> e \<in> set m"
proof -
  have aux: "fold (\<lambda>x b. if P x b then x else b) es e0 \<in> insert e0 (set es)" for P es and e0 :: 'a
  proof (induction es arbitrary: e0)
    case Nil
    then show ?case by simp
  next
    case (Cons a es)
    show ?case
      using Cons [of a] Cons [of e0] by (cases "P a e0") auto
  qed
  show "mod_begin pool m = Some e \<Longrightarrow> e \<in> set m"
  proof (cases m)
    case Nil
    assume "mod_begin pool m = Some e"
    with Nil show ?thesis by simp
  next
    case (Cons a list)
    assume "mod_begin pool m = Some e"
    with Cons aux [of "CompareTxMemPoolEntryByAncestorFee pool" list a] show ?thesis
      by auto
  qed
qed

lemma mod_begin_None: "mod_begin pool m = None \<longleftrightarrow> m = []"
  by (cases m) auto

lemma iters_update_descendant:
  "iter ` set (snd (update_descendant pool aa it desc acc))
      \<subseteq> iter ` set (snd acc) \<union> (if desc \<in> set aa then {} else {desc})"
  by (cases acc)
     (auto simp: update_descendant_def mod_modify_def update_for_parent_inclusion_def
                 ModifiedEntry_of_def split: option.splits)

lemma iters_fold_update_descendant:
  "iter ` set (snd (fold (update_descendant pool aa it) ds acc))
      \<subseteq> iter ` set (snd acc) \<union> (set ds - set aa)"
proof (induction ds arbitrary: acc)
  case Nil
  then show ?case by simp
next
  case (Cons d ds)
  have "iter ` set (snd (fold (update_descendant pool aa it) ds (update_descendant pool aa it d acc)))
          \<subseteq> iter ` set (snd (update_descendant pool aa it d acc)) \<union> (set ds - set aa)"
    by (rule Cons.IH)
  also have "\<dots> \<subseteq> (iter ` set (snd acc) \<union> (if d \<in> set aa then {} else {d})) \<union> (set ds - set aa)"
    using iters_update_descendant [of pool aa it d acc] by blast
  finally show ?case by (auto split: if_splits)
qed

lemma CalculateDescendants_range:
  "set (CalculateDescendants pool it) \<subseteq> insert it {0 ..< length (mapTx pool)}"
  by (auto simp: CalculateDescendants_def)

lemma iters_UpdatePackagesForAdded_aux:
  "set its \<subseteq> set aa \<Longrightarrow>
   iter ` set (snd (fold (\<lambda>it acc. fold (update_descendant pool aa it)
                         (CalculateDescendants pool it) acc) its acc))
      \<subseteq> iter ` set (snd acc) \<union> {0 ..< length (mapTx pool)}"
proof (induction its arbitrary: acc)
  case Nil
  then show ?case by simp
next
  case (Cons i its)
  let ?acc' = "fold (update_descendant pool aa i) (CalculateDescendants pool i) acc"
  have "iter ` set (snd ?acc') \<subseteq> iter ` set (snd acc) \<union> (set (CalculateDescendants pool i) - set aa)"
    by (rule iters_fold_update_descendant)
  moreover have "set (CalculateDescendants pool i) - set aa \<subseteq> {0 ..< length (mapTx pool)}"
    using CalculateDescendants_range [of pool i] Cons.prems by auto
  ultimately have "iter ` set (snd ?acc') \<subseteq> iter ` set (snd acc) \<union> {0 ..< length (mapTx pool)}"
    by blast
  moreover have "iter ` set (snd (fold (\<lambda>it acc. fold (update_descendant pool aa it)
                         (CalculateDescendants pool it) acc) its ?acc'))
      \<subseteq> iter ` set (snd ?acc') \<union> {0 ..< length (mapTx pool)}"
    using Cons.prems by (intro Cons.IH) simp
  ultimately show ?case by (simp del: fold_simps add: fold_Cons) blast
qed

lemma iters_UpdatePackagesForAdded:
  "iter ` set (snd (UpdatePackagesForAdded pool aa m))
      \<subseteq> iter ` set m \<union> {0 ..< length (mapTx pool)}"
  unfolding UpdatePackagesForAdded_def
  using iters_UpdatePackagesForAdded_aux [of aa aa pool "(0, m)"] by simp

lemma add_sorted_inBlock:
  "set (inBlock (asm (add_sorted pool xs s))) = set xs \<union> set (inBlock (asm s))"
  unfolding add_sorted_def
  by (induction xs arbitrary: s) (auto simp: AddToBlock_def Let_def)

lemma add_sorted_iters:
  "iter ` set (mapModifiedTx (add_sorted pool xs s)) \<subseteq> iter ` set (mapModifiedTx s)"
  unfolding add_sorted_def
proof (induction xs arbitrary: s)
  case Nil then show ?case by simp
next
  case (Cons x xs)
  show ?case
    using Cons.IH [of "s\<lparr>asm := AddToBlock pool x (asm s), mapModifiedTx := mod_erase (mapModifiedTx s) x\<rparr>"]
    by (auto simp: mod_erase_def)
qed

lemma add_sorted_mi: "mi (add_sorted pool xs s) = mi s"
  unfolding add_sorted_def by (induction xs arbitrary: s) auto

lemma set_SortForBlock: "set (SortForBlock pool xs) = set xs"
  by (simp add: SortForBlock_def)

lemma commit_package_facts:
  "mi (commit_package pool anc s) = mi s"
  "set (inBlock (asm (commit_package pool anc s))) = set anc \<union> set (inBlock (asm s))"
  "iter ` set (mapModifiedTx (commit_package pool anc s))
      \<subseteq> iter ` set (mapModifiedTx s) \<union> {0 ..< length (mapTx pool)}"
proof -
  let ?s1 = "add_sorted pool (SortForBlock pool anc) (s\<lparr>nConsecutiveFailed := 0\<rparr>)"
  let ?s2 = "?s1\<lparr>nPackagesSelected := nPackagesSelected ?s1 + 1\<rparr>"
  obtain n m where nm: "UpdatePackagesForAdded pool anc (mapModifiedTx ?s2) = (n, m)"
    by (cases "UpdatePackagesForAdded pool anc (mapModifiedTx ?s2)")
  have eq: "commit_package pool anc s = ?s2\<lparr>nDescendantsUpdated := nDescendantsUpdated ?s2 + n, mapModifiedTx := m\<rparr>"
    using nm by (simp add: commit_package_def Let_def)
  show "mi (commit_package pool anc s) = mi s"
    by (simp add: eq add_sorted_mi)
  show "set (inBlock (asm (commit_package pool anc s))) = set anc \<union> set (inBlock (asm s))"
    by (simp add: eq add_sorted_inBlock set_SortForBlock)
  have "iter ` set m \<subseteq> iter ` set (mapModifiedTx ?s2) \<union> {0 ..< length (mapTx pool)}"
    using iters_UpdatePackagesForAdded [of pool anc "mapModifiedTx ?s2"] nm by simp
  moreover have "iter ` set (mapModifiedTx ?s2) \<subseteq> iter ` set (mapModifiedTx s)"
    using add_sorted_iters [of pool "SortForBlock pool anc" "s\<lparr>nConsecutiveFailed := 0\<rparr>"] by simp
  ultimately show "iter ` set (mapModifiedTx (commit_package pool anc s))
      \<subseteq> iter ` set (mapModifiedTx s) \<union> {0 ..< length (mapTx pool)}"
    by (simp add: eq) blast
qed

lemma choose_candidate_cases:
  assumes "choose_candidate pool s = (it, um, s1)"
    and "mi s < length (mapTx pool) \<or> mapModifiedTx s \<noteq> []"
  shows "(um = None \<and> it = mi s \<and> mi s < length (mapTx pool) \<and> s1 = s\<lparr>mi := mi s + 1\<rparr>)
       \<or> (\<exists>modit. um = Some modit \<and> modit \<in> set (mapModifiedTx s) \<and> it = iter modit \<and> s1 = s
             \<and> mod_begin pool (mapModifiedTx s) = Some modit)"
proof (cases "mod_begin pool (mapModifiedTx s)")
  case None
  then have "mapModifiedTx s = []" by (simp add: mod_begin_None)
  with assms None show ?thesis by (auto simp: choose_candidate_def)
next
  case (Some modit)
  then have "modit \<in> set (mapModifiedTx s)" by (rule mod_begin_mem)
  with assms Some show ?thesis
    by (auto simp: choose_candidate_def split: if_splits)
qed

lemma addPackageTxs_body_cases [case_names leave skip abort stop reject cutoff nonfinal commit]:
  obtains
    (leave) "\<not> (mi s < length (mapTx pool) \<or> mapModifiedTx s \<noteq> [])"
            "addPackageTxs_body c env pool s = Done s"
  | (skip) "mi s < length (mapTx pool)"
           "SkipMapTxEntry (asm s) (mi s) (mapModifiedTx s) (failedTx s)"
           "addPackageTxs_body c env pool s = Again (s\<lparr>mi := mi s + 1\<rparr>)"
  | (abort) it um s1 where
           "mi s < length (mapTx pool) \<or> mapModifiedTx s \<noteq> []"
           "choose_candidate pool s = (it, um, s1)"
           "it \<in> set (inBlock (asm s1))"
           "addPackageTxs_body c env pool s = Aborted"
  | (stop) it um s1 psize pfees psigops where
           "mi s < length (mapTx pool) \<or> mapModifiedTx s \<noteq> []"
           "choose_candidate pool s = (it, um, s1)"
           "it \<notin> set (inBlock (asm s1))"
           "package_totals pool it um = (psize, pfees, psigops)"
           "pfees < FeeRate_GetFee env (blockMinFeeRate (asm s1)) psize"
           "addPackageTxs_body c env pool s = Done s1"
  | (reject) it um s1 psize pfees psigops where
           "mi s < length (mapTx pool) \<or> mapModifiedTx s \<noteq> []"
           "choose_candidate pool s = (it, um, s1)"
           "it \<notin> set (inBlock (asm s1))"
           "package_totals pool it um = (psize, pfees, psigops)"
           "\<not> TestPackage c (asm s1) psize psigops"
           "\<not> (nConsecutiveFailed s1 + 1 > MAX_CONSECUTIVE_FAILURES
               \<and> nBlockWeight (asm s1) > u64_sub (nBlockMaxWeight (asm s1)) 4000)"
           "addPackageTxs_body c env pool s
              = Again ((drop_failed um it s1)\<lparr>nConsecutiveFailed := nConsecutiveFailed s1 + 1\<rparr>)"
  | (cutoff) it um s1 psize pfees psigops where
           "mi s < length (mapTx pool) \<or> mapModifiedTx s \<noteq> []"
           "choose_candidate pool s = (it, um, s1)"
           "it \<notin> set (inBlock (asm s1))"
           "package_totals pool it um = (psize, pfees, psigops)"
           "\<not> TestPackage c (asm s1) psize psigops"
           "nConsecutiveFailed s1 + 1 > MAX_CONSECUTIVE_FAILURES"
           "nBlockWeight (asm s1) > u64_sub (nBlockMaxWeight (asm s1)) 4000"
           "addPackageTxs_body c env pool s
              = Done ((drop_failed um it s1)\<lparr>nConsecutiveFailed := nConsecutiveFailed s1 + 1\<rparr>)"
  | (nonfinal) it um s1 psize pfees psigops where
           "mi s < length (mapTx pool) \<or> mapModifiedTx s \<noteq> []"
           "choose_candidate pool s = (it, um, s1)"
           "it \<notin> set (inBlock (asm s1))"
           "package_totals pool it um = (psize, pfees, psigops)"
           "TestPackage c (asm s1) psize psigops"
           "addPackageTxs_body c env pool s = Again (drop_failed um it s1)"
  | (commit) it um s1 psize pfees psigops where
           "mi s < length (mapTx pool) \<or> mapModifiedTx s \<noteq> []"
           "choose_candidate pool s = (it, um, s1)"
           "it \<notin> set (inBlock (asm s1))"
           "package_totals pool it um = (psize, pfees, psigops)"
           "TestPackage c (asm s1) psize psigops"
           "TestPackageTransactions env pool (asm s1)
              (List.insert it (onlyUnconfirmed (asm s1) (CalculateMemPoolAncestors pool it)))"
           "addPackageTxs_body c env pool s
              = Commit (List.insert it (onlyUnconfirmed (asm s1) (CalculateMemPoolAncestors pool it))) s1"
proof (cases "mi s < length (mapTx pool) \<or> mapModifiedTx s \<noteq> []")
  case False
  then show ?thesis by (intro leave) (auto simp: addPackageTxs_body_def)
next
  case cond: True
  show ?thesis
  proof (cases "mi s < length (mapTx pool)
            \<and> SkipMapTxEntry (asm s) (mi s) (mapModifiedTx s) (failedTx s)")
    case True
    with cond show ?thesis by (intro skip) (auto simp: addPackageTxs_body_def)
  next
    case False
    then have noskip: "(mi s < length (mapTx pool)
            \<and> SkipMapTxEntry (asm s) (mi s) (mapModifiedTx s) (failedTx s)) = False"
      by simp
    obtain it um s1 where ch: "choose_candidate pool s = (it, um, s1)"
      by (cases "choose_candidate pool s")
    obtain psize pfees psigops where pt: "package_totals pool it um = (psize, pfees, psigops)"
      by (cases "package_totals pool it um")
    have df: "asm (drop_failed um it s1) = asm s1"
             "nConsecutiveFailed (drop_failed um it s1) = nConsecutiveFailed s1"
      by (simp_all add: drop_failed_def split: option.splits)
    show ?thesis
    proof (cases "it \<in> set (inBlock (asm s1))")
      case True
      with cond noskip ch show ?thesis
        by (intro abort [of it um s1]) (auto simp: addPackageTxs_body_def)
    next
      case nin: False
      show ?thesis
      proof (cases "pfees < FeeRate_GetFee env (blockMinFeeRate (asm s1)) psize")
        case True
        with cond noskip ch pt nin show ?thesis
          by (intro stop [of it um s1 psize pfees psigops])
             (auto simp: addPackageTxs_body_def)
      next
        case fee: False
        show ?thesis
        proof (cases "TestPackage c (asm s1) psize psigops")
          case tp: False
          show ?thesis
          proof (cases "nConsecutiveFailed s1 + 1 > MAX_CONSECUTIVE_FAILURES
               \<and> nBlockWeight (asm s1) > u64_sub (nBlockMaxWeight (asm s1)) 4000")
            case True
            with cond noskip ch pt nin fee tp df show ?thesis
              by (intro cutoff [of it um s1 psize pfees psigops])
                 (auto simp: addPackageTxs_body_def Let_def)
          next
            case False
            with cond noskip ch pt nin fee tp df show ?thesis
              by (intro reject [of it um s1 psize pfees psigops])
                 (auto simp: addPackageTxs_body_def Let_def)
          qed
        next
          case tp: True
          show ?thesis
          proof (cases "TestPackageTransactions env pool (asm s1)
              (List.insert it (onlyUnconfirmed (asm s1) (CalculateMemPoolAncestors pool it)))")
            case False
            with cond noskip ch pt nin fee tp show ?thesis
              by (intro nonfinal [of it um s1 psize pfees psigops])
                 (auto simp: addPackageTxs_body_def Let_def)
          next
            case True
            with cond noskip ch pt nin fee tp show ?thesis
              by (intro commit [of it um s1 psize pfees psigops])
                 (auto simp: addPackageTxs_body_def Let_def)
          qed
        qed
      qed
    qed
  qed
qed

lemma drop_failed_measure:
  assumes "um = None \<or> (\<exists>modit. um = Some modit \<and> modit \<in> set (mapModifiedTx s1))"
  shows "fst (loop_measure pool (drop_failed um it s1)) \<le> fst (loop_measure pool s1)"
    and "um \<noteq> None \<Longrightarrow> snd (loop_measure pool (drop_failed um it s1)) < snd (loop_measure pool s1)"
    and "um = None \<Longrightarrow> drop_failed um it s1 = s1"
proof -
  show "um = None \<Longrightarrow> drop_failed um it s1 = s1" by (simp add: drop_failed_def)
  show "fst (loop_measure pool (drop_failed um it s1)) \<le> fst (loop_measure pool s1)"
    by (cases um) (auto simp: loop_measure_def drop_failed_def mod_erase_def intro!: card_mono)
  show "snd (loop_measure pool (drop_failed um it s1)) < snd (loop_measure pool s1)" if "um \<noteq> None"
  proof -
    from that assms obtain modit where m: "um = Some modit" "modit \<in> set (mapModifiedTx s1)" by auto
    have "length (filter (\<lambda>e. iter e \<noteq> iter modit) (mapModifiedTx s1)) < length (mapModifiedTx s1)"
      using m(2) by (intro length_filter_less [of modit]) auto
    with m show ?thesis by (simp add: loop_measure_def drop_failed_def mod_erase_def)
  qed
qed

lemma drop_failed_decreases:
  assumes "choose_candidate pool s = (it, um, s1)"
    and "mi s < length (mapTx pool) \<or> mapModifiedTx s \<noteq> []"
  shows "(loop_measure pool (drop_failed um it s1), loop_measure pool s)
           \<in> less_than <*lex*> less_than"
  using choose_candidate_cases [OF assms]
proof (elim disjE conjE exE)
  assume "um = None" "s1 = s\<lparr>mi := mi s + 1\<rparr>" "mi s < length (mapTx pool)"
  then show ?thesis by (auto simp: loop_measure_def drop_failed_def)
next
  fix modit assume m: "um = Some modit" "modit \<in> set (mapModifiedTx s)" "s1 = s"
  with drop_failed_measure(1,2) [of um s1 pool it]
  show ?thesis by (auto simp: loop_measure_def)
qed

lemma body_Again_decreases:
  assumes "addPackageTxs_body c env pool s = Again s'"
  shows "(loop_measure pool s', loop_measure pool s) \<in> less_than <*lex*> less_than"
proof (cases rule: addPackageTxs_body_cases [of s pool c env])
  case skip
  with assms show ?thesis by (auto simp: loop_measure_def)
next
  case (reject it um s1 psize pfees psigops)
  with assms have "loop_measure pool s' = loop_measure pool (drop_failed um it s1)"
    by (auto simp: loop_measure_def)
  with drop_failed_decreases [OF reject(2,1)] show ?thesis by simp
next
  case (nonfinal it um s1 psize pfees psigops)
  with assms drop_failed_decreases [OF nonfinal(2,1)] show ?thesis by simp
qed (use assms in simp_all)

lemma body_Commit_decreases:
  assumes "addPackageTxs_body c env pool s = Commit anc s1"
  shows "(loop_measure pool (commit_package pool anc s1), loop_measure pool s)
           \<in> less_than <*lex*> less_than"
proof (cases rule: addPackageTxs_body_cases [of s pool c env])
  case (commit it um s1' psize pfees psigops)
  with assms have eq: "s1' = s1"
    "anc = List.insert it (onlyUnconfirmed (asm s1) (CalculateMemPoolAncestors pool it))"
    by auto
  let ?n = "length (mapTx pool)"
  let ?U = "\<lambda>s. ({0 ..< ?n} \<union> iter ` set (mapModifiedTx s)) - set (inBlock (asm s))"
  from choose_candidate_cases [OF commit(2,1)] eq
  have it_in: "it \<in> {0 ..< ?n} \<union> iter ` set (mapModifiedTx s)"
    and same: "asm s1 = asm s" "mapModifiedTx s1 = mapModifiedTx s"
    by auto
  have "?U (commit_package pool anc s1) \<subseteq> ?U s - {it}"
    using commit_package_facts(2,3) [of pool anc s1] eq(2) same by auto
  moreover have "it \<in> ?U s" using it_in commit(3) same eq by auto
  ultimately have "?U (commit_package pool anc s1) \<subset> ?U s" by blast
  then have "card (?U (commit_package pool anc s1)) < card (?U s)"
    by (intro psubset_card_mono) auto
  then show ?thesis by (simp add: loop_measure_def)
qed (use assms in simp_all)

termination addPackageTxs_loop
proof (relation "inv_image (less_than <*lex*> less_than) (\<lambda>(c, env, pool, s). loop_measure pool s)",
       goal_cases)
  case 1
  show ?case by (intro wf_inv_image wf_lex_prod wf_less_than)
next
  case (2 c env pool s s')
  then have "(loop_measure pool s', loop_measure pool s) \<in> less_than <*lex*> less_than"
    by (intro body_Again_decreases)
  then show ?case by simp
next
  case (3 c env pool s anc s1)
  then have "(loop_measure pool (commit_package pool anc s1), loop_measure pool s)
               \<in> less_than <*lex*> less_than"
    by (intro body_Commit_decreases)
  then show ?case by simp
qed

declare addPackageTxs_loop.simps [simp del]

section \<open>Evaluation on the example inputs\<close>

lemmas model_defs =
  u64_def u64_of_int_def u64_sub_def null_tx_def CBlock_new_def CBlockTemplate_new_def
  MakeTransactionRef_def entry_def CalculateDescendants_def ModifiedEntry_of_def
  update_for_parent_inclusion_def mod_find_def mod_erase_def mod_modify_def
  Options_default_def GetArg_def DefaultOptions_def BlockAssembler_ctor_def
  resetBlock_def onlyUnconfirmed_def TestPackage_def TestPackageTransactions_def
  AddToBlock_def update_descendant_def UpdatePackagesForAdded_def SkipMapTxEntry_def
  SortForBlock_def MAX_CONSECUTIVE_FAILURES_def choose_candidate_def package_totals_def
  drop_failed_def add_sorted_def commit_package_def addPackageTxs_body_def
  addPackageTxs_begin_def addPackageTxs_def UpdateTime_def GetMaxTransactionTime_def
  search_time_static_def CTxIn_new_def CTxOut_new_def SetEmpty_def resize1_def on_block_def
  pblock_def CreateNewBlock_begin_def masked_txCoinStake_def stake_search_def
  prepare_selection_def place_coinbase_def fill_header_def
  CreateNewBlock_finish_def CreateNewBlock_setup_def CreateNewBlock_def ProcessBlockFound_def



lemma ex_entry_sel:
  "GetTx ex_A = ex_tx 10 [1]" "GetFee ex_A = 2500" "GetModifiedFee ex_A = 2500" "GetTxSize ex_A = 250"
  "GetTxWeight ex_A = 1000" "GetSigOpCost ex_A = 4" "GetCountWithAncestors ex_A = 1"
  "GetSizeWithAncestors ex_A = 250" "GetModFeesWithAncestors ex_A = 2500" "GetSigOpCostWithAncestors ex_A = 4"
  "GetTx ex_C = ex_tx 30 [20]" "GetFee ex_C = 4000" "GetModifiedFee ex_C = 4000" "GetTxSize ex_C = 250"
  "GetTxWeight ex_C = 1000" "GetSigOpCost ex_C = 4" "GetCountWithAncestors ex_C = 2"
  "GetSizeWithAncestors ex_C = 500" "GetModFeesWithAncestors ex_C = 4000" "GetSigOpCostWithAncestors ex_C = 8"
  "GetTx ex_P = ex_tx 20 [2]" "GetFee ex_P = 0" "GetModifiedFee ex_P = 0" "GetTxSize ex_P = 250"
  "GetTxWeight ex_P = 1000" "GetSigOpCost ex_P = 4" "GetCountWithAncestors ex_P = 1"
  "GetSizeWithAncestors ex_P = 250" "GetModFeesWithAncestors ex_P = 0" "GetSigOpCostWithAncestors ex_P = 4"
  "GetTx ex_D = ex_tx 40 [10]" "GetFee ex_D = 300" "GetModifiedFee ex_D = 300" "GetTxSize ex_D = 200"
  "GetTxWeight ex_D = 800" "GetSigOpCost ex_D = 4" "GetCountWithAncestors ex_D = 2"
  "GetSizeWithAncestors ex_D = 450" "GetModFeesWithAncestors ex_D = 2800" "GetSigOpCostWithAncestors ex_D = 8"
  by (simp_all add: ex_A_def ex_C_def ex_P_def ex_D_def)

lemma ex_tx_sel:
  "GetHash (ex_tx h sp) = h" "tx_nTime (ex_tx h sp) = 1500" "HasWitness (ex_tx h sp) = False"
  "vin (ex_tx h sp) = map (\<lambda>p. \<lparr> prevout_hash = p, scriptSig = [] \<rparr>) sp"
  by (simp_all add: ex_tx_def)

lemma ex_pool_sel:
  "mapTx ex_pool = [ex_A, ex_C, ex_P, ex_D]"
  "CalculateMemPoolAncestors ex_pool = (\<lambda>it. if it = 1 then [2] else if it = 3 then [0] else [])"
  "CompareTxMemPoolEntryByAncestorFee ex_pool =
         (\<lambda>a b. nModFeesWithAncestors a * int (nSizeWithAncestors b)
                  > nModFeesWithAncestors b * int (nSizeWithAncestors a))"
  by (simp_all add: ex_pool_def)

lemma ex_entry: "entry ex_pool 0 = ex_A" "entry ex_pool (Suc 0) = ex_C" "entry ex_pool 2 = ex_P"
  "entry ex_pool 3 = ex_D" "entry ex_pool 1 = ex_C"  "entry ex_pool (Suc (Suc 0)) = ex_P"
  "entry ex_pool (Suc (Suc (Suc 0))) = ex_D"
  by (simp_all add: entry_def ex_pool_sel numeral_2_eq_2 numeral_3_eq_3)

lemma ex_consts_sel:
  "MAX_BLOCK_WEIGHT ex_consts = 4000000" "MAX_BLOCK_SIGOPS_COST ex_consts = 80000"
  "DEFAULT_BLOCK_MAX_WEIGHT ex_consts = 3996000" "WITNESS_SCALE_FACTOR ex_consts = 4"
  "DEFAULT_BLOCK_MIN_TX_FEE ex_consts = 1000"
  by (simp_all add: ex_consts_def)

lemma ex_env_sel:
  "Tip ex_env = \<lparr> tip_nHeight = 100, GetMedianTimePast = 1000, GetBlockHash = 77 \<rparr>"
  "now_at_start ex_env = 1600" "now_at_static_init ex_env = 1500" "now_at_update ex_env = 1601"
  "new_coinbaseTx ex_env = \<lparr> vin = [], vout = [], tx_nTime = 1600, HasWitness = False \<rparr>"
  "new_txCoinStake ex_env = \<lparr> vin = [], vout = [], tx_nTime = 1607, HasWitness = False \<rparr>"
  "ComputeHash ex_env = (\<lambda>mtx. 9000 + length (vin mtx) + length (vout mtx))"
  "GetNextTargetRequired ex_env = (\<lambda>pos. if pos then 5 else 6)"
  "GetBlockSubsidy ex_env = (\<lambda>h. 50)"
  "ComputeBlockVersion ex_env = 4"
  "MineBlocksOnDemand ex_env = False"
  "arg_blockversion ex_env = None"
  "locktime_median_time_past ex_env = True"
  "DeploymentActiveAfter_SEGWIT ex_env = False"
  "GenerateCoinbaseCommitment ex_env = (\<lambda>b. (vtx b ! 0, []))"
  "GetLegacySigOpCount ex_env = (\<lambda>tx. 1)"
  "TestBlockValidity ex_env = (\<lambda>b. True)"
  "IsProofOfStake ex_env = (\<lambda>b. nFlags b = 1)"
  "FeeRate_GetFee ex_env = (\<lambda>rate size. rate * int size div 1000)"
  "IsFinalTx ex_env = (\<lambda>tx h t. True)"
  "nStakeTimestampMask ex_env = 15"
  "fPowAllowMinDifficultyBlocks ex_env = False"
  "BLOCK_PROOF_OF_STAKE ex_env = 1"
  by (simp_all add: ex_env_def)

lemmas ex_sel = ex_entry_sel ex_tx_sel ex_pool_sel ex_entry ex_consts_sel ex_env_sel


lemmas ex_sel2 = ex_asm_def ex_raw_def ex_options_def ex_globals_def ex_wallet_none_def ex_wallet_found_def


lemma ex_run_pow:
  "CreateNewBlock ex_consts ex_env ex_pool ex_asm ex_globals [7] None False = Inr ex_result_pow"
  by (simp add: model_defs ex_sel ex_sel2 Let_def addPackageTxs_loop.simps
                ex_result_pow_def ex_template_pow_def
           cong: let_weak_cong prod.case_cong_weak)


lemma ex_run_pos:
  "CreateNewBlock ex_consts ex_env ex_pool ex_asm ex_globals [7] (Some ex_wallet_found) False
     = Inr ex_result_pos"
  by (simp add: model_defs ex_sel ex_sel2 Let_def addPackageTxs_loop.simps
                ex_result_pos_def ex_template_pos_def
           cong: let_weak_cong prod.case_cong_weak)

section \<open>Facts about the parts of CreateNewBlock\<close>

lemma CreateNewBlock_begin_pos:
  "CreateNewBlock_begin env a scr False = (a1, cb) \<Longrightarrow>
     nFees a1 = 0 \<and> vtx (pblock a1) = [null_tx] \<and> vTxFees (pblocktemplate a1) = [- 1]
     \<and> vTxSigOpsCost (pblocktemplate a1) = [- 1]"
  by (auto simp: CreateNewBlock_begin_def Let_def resetBlock_def on_block_def pblock_def
                 CBlockTemplate_new_def CBlock_new_def)

lemma fold_max_time:
  fixes m0 :: int
  shows "m0 \<le> fold (\<lambda>tx m. max m (uint (tx_nTime tx))) txs m0"
    and "m0 < 2 ^ 32 \<Longrightarrow> fold (\<lambda>tx m. max m (uint (tx_nTime tx))) txs m0 < 2 ^ 32"
    and "tx \<in> set txs \<Longrightarrow> uint (tx_nTime tx) \<le> fold (\<lambda>tx m. max m (uint (tx_nTime tx))) txs m0"
proof -
  show le: "m0 \<le> fold (\<lambda>tx m. max m (uint (tx_nTime tx))) txs m0" for m0 :: int and txs :: "'a CMutableTransaction_scheme list"
  proof (induction txs arbitrary: m0)
    case Nil
    show ?case by simp
  next
    case (Cons t ts)
    have "m0 \<le> max m0 (uint (tx_nTime t))" by simp
    also have "\<dots> \<le> fold (\<lambda>tx m. max m (uint (tx_nTime tx))) ts (max m0 (uint (tx_nTime t)))"
      by (rule Cons.IH)
    finally show ?case by simp
  qed
  show "m0 < 2 ^ 32 \<Longrightarrow> fold (\<lambda>tx m. max m (uint (tx_nTime tx))) txs m0 < 2 ^ 32"
  proof (induction txs arbitrary: m0)
    case Nil
    then show ?case by simp
  next
    case (Cons t ts)
    have "uint (tx_nTime t) < 2 ^ 32"
      using uint_bounded [of "tx_nTime t"] by simp
    with Cons.prems have "max m0 (uint (tx_nTime t)) < 2 ^ 32" by simp
    then show ?case using Cons.IH by simp
  qed
  show "tx \<in> set txs \<Longrightarrow> uint (tx_nTime tx) \<le> fold (\<lambda>tx m. max m (uint (tx_nTime tx))) txs m0"
  proof (induction txs arbitrary: m0)
    case Nil
    then show ?case by simp
  next
    case (Cons t ts)
    show ?case
    proof (cases "tx = t")
      case True
      have "uint (tx_nTime t) \<le> max m0 (uint (tx_nTime t))" by simp
      also note le [of "max m0 (uint (tx_nTime t))" ts]
      finally show ?thesis using True by simp
    next
      case False
      with Cons.prems have "tx \<in> set ts" by simp
      then show ?thesis using Cons.IH by simp
    qed
  qed
qed

lemma GetMaxTransactionTime_bounds:
  "0 \<le> GetMaxTransactionTime b" "GetMaxTransactionTime b < 2 ^ 32"
  "tx \<in> set (vtx b) \<Longrightarrow> uint (tx_nTime tx) \<le> GetMaxTransactionTime b"
  unfolding GetMaxTransactionTime_def
  using fold_max_time(1) [of 0 "vtx b"] fold_max_time(2) [of 0 "vtx b"] fold_max_time(3) [of tx "vtx b" 0]
  by simp_all

lemma UpdateTime_raises:
  assumes "GetMedianTimePast (Tip env) + 1 < 2 ^ 32" and "now_at_update env < 2 ^ 32"
  shows "uint (nTime b) \<le> uint (nTime (fst (UpdateTime env b)))"
    and "vtx (fst (UpdateTime env b)) = vtx b"
proof -
  let ?new = "max (GetMedianTimePast (Tip env) + 1) (now_at_update env)"
  have "uint (word_of_int ?new :: 32 word) = ?new" if "uint (nTime b) < ?new"
  proof -
    have "0 \<le> ?new" using that uint_ge_0 [of "nTime b"] by linarith
    moreover have "?new < 2 ^ 32" using assms by simp
    ultimately show ?thesis by (simp add: uint_word_of_int)
  qed
  then show "uint (nTime b) \<le> uint (nTime (fst (UpdateTime env b)))"
    by (auto simp: UpdateTime_def Let_def)
  show "vtx (fst (UpdateTime env b)) = vtx b"
    by (simp add: UpdateTime_def Let_def)
qed

lemma fill_header_time:
  assumes "GetMedianTimePast (Tip env) + 1 < 2 ^ 32" and "now_at_update env < 2 ^ 32"
  shows "max (GetMedianTimePast (Tip env) + 1) (GetMaxTransactionTime (pblock a))
           \<le> uint (nTime (pblock (fill_header c env a)))"
    and "vtx (pblock (fill_header c env a)) = vtx (pblock a)"
proof -
  let ?t = "max (GetMedianTimePast (Tip env) + 1) (GetMaxTransactionTime (pblock a))"
  let ?b = "(pblock a)\<lparr> hashPrevBlock := GetBlockHash (Tip env), nTime := word_of_int ?t \<rparr>"
  have t: "uint (word_of_int ?t :: 32 word) = ?t"
    using GetMaxTransactionTime_bounds(1,2) [of "pblock a"] assms(1)
    by (simp add: uint_word_of_int)
  have gm: "GetMaxTransactionTime (b\<lparr> hashPrevBlock := h \<rparr>) = GetMaxTransactionTime b" for b h
    by (simp add: GetMaxTransactionTime_def)
  have "?t \<le> uint (nTime ?b)" using t by simp
  also have "\<dots> \<le> uint (nTime (fst (UpdateTime env ?b)))"
    by (rule UpdateTime_raises(1) [OF assms])
  finally have up: "?t \<le> uint (nTime (fst (UpdateTime env ?b)))" .
  show "?t \<le> uint (nTime (pblock (fill_header c env a)))"
    using up t by (simp add: fill_header_def Let_def on_block_def pblock_def gm)
  show "vtx (pblock (fill_header c env a)) = vtx (pblock a)"
    by (simp add: fill_header_def Let_def on_block_def pblock_def UpdateTime_raises(2) [OF assms])
qed

lemma CreateNewBlock_finish_Inr:
  assumes "CreateNewBlock_finish c env pool a cb g k = Inr r"
  shows "\<exists>s. addPackageTxs c env pool (prepare_selection env a) 0 0 = Inr s
    \<and> returned r = Some (pblocktemplate (fill_header c env (place_coinbase env cb (asm s))))
    \<and> assembler r = fill_header c env (place_coinbase env cb (asm s))
    \<and> statics r = g\<lparr> m_last_block_num_txs := Some (nBlockTx (asm s)),
                      m_last_block_weight := Some (nBlockWeight (asm s)) \<rparr>
    \<and> pfPoSCancel r = k"
proof (cases "addPackageTxs c env pool (prepare_selection env a) 0 0")
  case (Inl e)
  with assms show ?thesis by (simp add: CreateNewBlock_finish_def)
next
  case (Inr s)
  with assms have
    "r = \<lparr> returned = Some (pblocktemplate (fill_header c env (place_coinbase env cb (asm s)))),
           assembler = fill_header c env (place_coinbase env cb (asm s)),
           statics = g\<lparr> m_last_block_num_txs := Some (nBlockTx (asm s)),
                        m_last_block_weight := Some (nBlockWeight (asm s)) \<rparr>,
           pfPoSCancel = k,
           pFees = Some (nFees (fill_header c env (place_coinbase env cb (asm s)))) \<rparr>"
    by (simp add: CreateNewBlock_finish_def Let_def split: if_splits)
  with Inr show ?thesis by simp
qed


section \<open>The states of the selection\<close>

lemma add_sorted_asm: "asm (add_sorted pool xs s) = fold (AddToBlock pool) xs (asm s)"
  unfolding add_sorted_def by (induction xs arbitrary: s) simp_all

lemma add_sorted_mod:
  "mapModifiedTx (add_sorted pool xs s) = filter (\<lambda>e. iter e \<notin> set xs) (mapModifiedTx s)"
  unfolding add_sorted_def
proof (induction xs arbitrary: s)
  case Nil
  show ?case by simp
next
  case (Cons x xs)
  show ?case
    using Cons [of "s\<lparr>asm := AddToBlock pool x (asm s), mapModifiedTx := mod_erase (mapModifiedTx s) x\<rparr>"]
    by (simp add: mod_erase_def conj_commute)
qed

lemma commit_package_asm:
  "asm (commit_package pool anc s) = fold (AddToBlock pool) (SortForBlock pool anc) (asm s)"
  by (simp add: commit_package_def Let_def add_sorted_asm split: prod.splits)

lemma commit_package_mod:
  "mapModifiedTx (commit_package pool anc s)
     = snd (UpdatePackagesForAdded pool anc
              (filter (\<lambda>e. iter e \<notin> set anc) (mapModifiedTx s)))"
  by (simp add: commit_package_def Let_def add_sorted_mod set_SortForBlock split: prod.splits)

lemma AddToBlock_fields:
  "nBlockMaxWeight (AddToBlock pool it a) = nBlockMaxWeight a"
  "blockMinFeeRate (AddToBlock pool it a) = blockMinFeeRate a"
  "nHeight (AddToBlock pool it a) = nHeight a"
  "vtx (pblock (AddToBlock pool it a)) = vtx (pblock a) @ [GetTx (entry pool it)]"
  "vTxFees (pblocktemplate (AddToBlock pool it a)) = vTxFees (pblocktemplate a) @ [GetFee (entry pool it)]"
  "vTxSigOpsCost (pblocktemplate (AddToBlock pool it a))
     = vTxSigOpsCost (pblocktemplate a) @ [GetSigOpCost (entry pool it)]"
  "nFees (AddToBlock pool it a) = nFees a + GetFee (entry pool it)"
  "nBlockWeight (AddToBlock pool it a) = u64 (nBlockWeight a + GetTxWeight (entry pool it))"
  "nBlockSigOpsCost (AddToBlock pool it a)
     = u64_of_int (int (nBlockSigOpsCost a) + GetSigOpCost (entry pool it))"
  "set (inBlock (AddToBlock pool it a)) = insert it (set (inBlock a))"
  by (simp_all add: AddToBlock_def Let_def pblock_def)

lemma u64_of_int_add: "u64_of_int (int (u64_of_int x) + y) = u64_of_int (x + y)"
  by (simp add: u64_of_int_def mod_add_left_eq)

lemma u64_add: "u64 (u64 x + y) = u64 (x + y)"
  by (simp add: u64_def mod_add_left_eq)

lemma assembled_AddToBlock:
  assumes "assembled pool a0 hs a"
  shows "assembled pool a0 (hs @ [it]) (AddToBlock pool it a)"
  using assms
  by (simp add: assembled_def AddToBlock_fields u64_add u64_of_int_add add.assoc)

lemma assembled_fold:
  assumes "assembled pool a0 hs a"
  shows "assembled pool a0 (hs @ xs) (fold (AddToBlock pool) xs a)"
  using assms
proof (induction xs arbitrary: hs a)
  case Nil
  then show ?case by simp
next
  case (Cons x xs)
  from Cons.IH [OF assembled_AddToBlock [OF Cons.prems, of x]] show ?case by simp
qed

lemma assembled_start:
  assumes "nBlockWeight a0 < 2 ^ 64" and "nBlockSigOpsCost a0 < 2 ^ 64"
  shows "assembled pool a0 [] a0"
  using assms by (simp add: assembled_def u64_def u64_of_int_def)

lemma drop_failed_fields:
  "asm (drop_failed um it s) = asm s"
  "set (mapModifiedTx (drop_failed um it s)) \<subseteq> set (mapModifiedTx s)"
  "mi (drop_failed um it s) = mi s"
  by (auto simp: drop_failed_def mod_erase_def split: option.splits)

lemma choose_candidate_fields:
  assumes "choose_candidate pool s = (it, um, s1)"
  shows "asm s1 = asm s" "mapModifiedTx s1 = mapModifiedTx s" "failedTx s1 = failedTx s"
    "nConsecutiveFailed s1 = nConsecutiveFailed s"
  using assms by (auto simp: choose_candidate_def split: option.splits if_splits)

lemma body_Again_fields:
  assumes "addPackageTxs_body c env pool s = Again s'"
  shows "asm s' = asm s" "set (mapModifiedTx s') \<subseteq> set (mapModifiedTx s)"
proof -
  have "asm s' = asm s \<and> set (mapModifiedTx s') \<subseteq> set (mapModifiedTx s)"
  proof (cases rule: addPackageTxs_body_cases [of s pool c env])
    case skip
    with assms show ?thesis by auto
  next
    case (reject it um s1 psize pfees psigops)
    with assms choose_candidate_fields [OF reject(2)] drop_failed_fields [of um it s1]
    show ?thesis by auto
  next
    case (nonfinal it um s1 psize pfees psigops)
    with assms choose_candidate_fields [OF nonfinal(2)] drop_failed_fields [of um it s1]
    show ?thesis by auto
  qed (use assms in simp_all)
  then show "asm s' = asm s" "set (mapModifiedTx s') \<subseteq> set (mapModifiedTx s)" by simp_all
qed

lemma body_Done_fields:
  assumes "addPackageTxs_body c env pool s = Done s'"
  shows "asm s' = asm s" "set (mapModifiedTx s') \<subseteq> set (mapModifiedTx s)"
proof -
  have "asm s' = asm s \<and> set (mapModifiedTx s') \<subseteq> set (mapModifiedTx s)"
  proof (cases rule: addPackageTxs_body_cases [of s pool c env])
    case leave
    with assms show ?thesis by auto
  next
    case (stop it um s1 psize pfees psigops)
    with assms choose_candidate_fields [OF stop(2)] show ?thesis by auto
  next
    case (cutoff it um s1 psize pfees psigops)
    with assms choose_candidate_fields [OF cutoff(2)] drop_failed_fields [of um it s1]
    show ?thesis by auto
  qed (use assms in simp_all)
  then show "asm s' = asm s" "set (mapModifiedTx s') \<subseteq> set (mapModifiedTx s)" by simp_all
qed

lemma body_Commit_fields:
  assumes "addPackageTxs_body c env pool s = Commit anc s1"
  shows "\<exists>it um psize pfees psigops.
           choose_candidate pool s = (it, um, s1)
         \<and> (mi s < length (mapTx pool) \<or> mapModifiedTx s \<noteq> [])
         \<and> it \<notin> set (inBlock (asm s))
         \<and> package_totals pool it um = (psize, pfees, psigops)
         \<and> TestPackage c (asm s) psize psigops
         \<and> anc = List.insert it (onlyUnconfirmed (asm s) (CalculateMemPoolAncestors pool it))
         \<and> asm s1 = asm s \<and> mapModifiedTx s1 = mapModifiedTx s"
proof (cases rule: addPackageTxs_body_cases [of s pool c env])
  case (commit it um s1' psize pfees psigops)
  with assms have "s1' = s1"
    "anc = List.insert it (onlyUnconfirmed (asm s1) (CalculateMemPoolAncestors pool it))"
    by auto
  with commit choose_candidate_fields [OF commit(2)] show ?thesis by auto
qed (use assms in simp_all)

lemma visited_final:
  assumes "addPackageTxs_loop c env pool s = Inr s'" and "visited c env pool s0 s"
  shows "visited c env pool s0 s'"
  using assms
proof (induction c env pool s rule: addPackageTxs_loop.induct)
  case (1 c env pool s)
  show ?case
  proof (cases "addPackageTxs_body c env pool s")
    case (Again s1)
    with "1.prems" have "addPackageTxs_loop c env pool s1 = Inr s'"
      by (subst (asm) addPackageTxs_loop.simps) simp
    moreover have "visited c env pool s0 s1" using "1.prems"(2) Again by (rule visited.again)
    ultimately show ?thesis using "1.IH"(1) [OF Again] by blast
  next
    case (Commit anc s1)
    with "1.prems" have "addPackageTxs_loop c env pool (commit_package pool anc s1) = Inr s'"
      by (subst (asm) addPackageTxs_loop.simps) simp
    moreover have "visited c env pool s0 (commit_package pool anc s1)"
      using "1.prems"(2) Commit by (rule visited.commit)
    ultimately show ?thesis using "1.IH"(2) [OF Commit] by blast
  next
    case (Done s1)
    with "1.prems" have "s' = s1"
      by (subst (asm) addPackageTxs_loop.simps) simp
    with "1.prems"(2) Done show ?thesis by (auto intro: visited.leave)
  next
    case Aborted
    with "1.prems" show ?thesis
      by (subst (asm) addPackageTxs_loop.simps) simp
  qed
qed

text \<open>Invariant rule for predicates on the assembler and the modified set.\<close>

lemma visited_invariant:
  assumes "visited c env pool s0 s"
    and "P (asm s0) (mapModifiedTx s0)"
    and shrink: "\<And>a m m'. P a m \<Longrightarrow> set m' \<subseteq> set m \<Longrightarrow> P a m'"
    and add: "\<And>s anc s1 k. visited c env pool s0 s \<Longrightarrow> P (asm s) (mapModifiedTx s)
                \<Longrightarrow> addPackageTxs_body c env pool s = Commit anc s1
                \<Longrightarrow> k \<le> length (SortForBlock pool anc)
                \<Longrightarrow> P (fold (AddToBlock pool) (take k (SortForBlock pool anc)) (asm s))
                      (filter (\<lambda>e. iter e \<notin> set (take k (SortForBlock pool anc))) (mapModifiedTx s))"
    and upd: "\<And>s anc s1. visited c env pool s0 s \<Longrightarrow> P (asm s) (mapModifiedTx s)
                \<Longrightarrow> addPackageTxs_body c env pool s = Commit anc s1
                \<Longrightarrow> P (fold (AddToBlock pool) (SortForBlock pool anc) (asm s))
                      (snd (UpdatePackagesForAdded pool anc
                         (filter (\<lambda>e. iter e \<notin> set anc) (mapModifiedTx s))))"
  shows "P (asm s) (mapModifiedTx s)"
  using assms(1)
proof (induction rule: visited.induct)
  case start
  show ?case by (rule assms(2))
next
  case (again s s')
  from body_Again_fields [OF again(2)] again(3) shrink show ?case by auto
next
  case (leave s s')
  from body_Done_fields [OF leave(2)] leave(3) shrink show ?case by auto
next
  case (adding s anc s1 k)
  from body_Commit_fields [OF adding(2)] have "asm s1 = asm s" "mapModifiedTx s1 = mapModifiedTx s"
    by auto
  with add [OF adding(1,4,2,3)] show ?case
    by (simp add: add_sorted_asm add_sorted_mod)
next
  case (commit s anc s1)
  from body_Commit_fields [OF commit(2)] have "asm s1 = asm s" "mapModifiedTx s1 = mapModifiedTx s"
    by auto
  with upd [OF commit(1,3,2)] show ?case
    by (simp add: commit_package_asm commit_package_mod)
qed

lemma visited_assembled:
  assumes "visited c env pool s0 s"
    and "nBlockWeight (asm s0) < 2 ^ 64" and "nBlockSigOpsCost (asm s0) < 2 ^ 64"
  shows "\<exists>hs. assembled pool (asm s0) hs (asm s)"
proof -
  let ?P = "\<lambda>a (m :: indexed_modified_transaction_set). \<exists>hs. assembled pool (asm s0) hs a"
  have "?P (asm s) (mapModifiedTx s)"
  proof (rule visited_invariant [OF assms(1), where P = ?P])
    show "?P (asm s0) (mapModifiedTx s0)"
      using assembled_start [OF assms(2,3)] by blast
  qed (use assembled_fold in blast)+
  then show ?thesis .
qed

lemma prepare_selection_fields:
  "pblocktemplate (prepare_selection env a)
     = (pblocktemplate a)\<lparr> block := (pblock a)\<lparr> nVersion := nVersion (pblock (prepare_selection env a)) \<rparr> \<rparr>"
  "inBlock (prepare_selection env a) = inBlock a"
  "nBlockWeight (prepare_selection env a) = nBlockWeight a"
  "nBlockSigOpsCost (prepare_selection env a) = nBlockSigOpsCost a"
  "nFees (prepare_selection env a) = nFees a"
  "nBlockMaxWeight (prepare_selection env a) = nBlockMaxWeight a"
  "nHeight (prepare_selection env a) = nHeight a"
  by (simp_all add: prepare_selection_def Let_def on_block_def pblock_def)

lemma prepare_selection_lists:
  "vtx (pblock (prepare_selection env a)) = vtx (pblock a)"
  "vTxFees (pblocktemplate (prepare_selection env a)) = vTxFees (pblocktemplate a)"
  "vTxSigOpsCost (pblocktemplate (prepare_selection env a)) = vTxSigOpsCost (pblocktemplate a)"
  by (simp_all add: prepare_selection_def Let_def on_block_def pblock_def)

lemma place_coinbase_fields:
  "\<exists>coinbase. vtx (pblock (place_coinbase env cb a)) = (vtx (pblock a))[0 := coinbase]"
  "vTxFees (pblocktemplate (place_coinbase env cb a)) = (vTxFees (pblocktemplate a))[0 := - nFees a]"
  "vTxSigOpsCost (pblocktemplate (place_coinbase env cb a)) = vTxSigOpsCost (pblocktemplate a)"
  "inBlock (place_coinbase env cb a) = inBlock a"
  "nBlockWeight (place_coinbase env cb a) = nBlockWeight a"
  "nBlockSigOpsCost (place_coinbase env cb a) = nBlockSigOpsCost a"
  "nFees (place_coinbase env cb a) = nFees a"
  "nBlockMaxWeight (place_coinbase env cb a) = nBlockMaxWeight a"
  by (auto simp: place_coinbase_def Let_def on_block_def pblock_def split: prod.splits)

lemma fill_header_fields:
  "vtx (pblock (fill_header c env a)) = vtx (pblock a)"
  "vTxFees (pblocktemplate (fill_header c env a)) = vTxFees (pblocktemplate a)"
  "\<exists>sigops. vTxSigOpsCost (pblocktemplate (fill_header c env a))
                = (vTxSigOpsCost (pblocktemplate a))[0 := sigops]"
  "inBlock (fill_header c env a) = inBlock a"
  "nBlockWeight (fill_header c env a) = nBlockWeight a"
  "nBlockSigOpsCost (fill_header c env a) = nBlockSigOpsCost a"
  "nFees (fill_header c env a) = nFees a"
  "nBlockMaxWeight (fill_header c env a) = nBlockMaxWeight a"
  by (auto simp: fill_header_def Let_def on_block_def pblock_def UpdateTime_def)

lemma CreateNewBlock_begin_fields:
  assumes "CreateNewBlock_begin env a scr pow = (a1, cb)"
  shows "nBlockWeight a1 = 4000" "nBlockSigOpsCost a1 = 400" "inBlock a1 = []" "nFees a1 = 0"
    "nBlockMaxWeight a1 = nBlockMaxWeight a" "blockMinFeeRate a1 = blockMinFeeRate a"
    "vtx (pblock a1) = [null_tx]" "vTxFees (pblocktemplate a1) = [- 1]"
    "vTxSigOpsCost (pblocktemplate a1) = [- 1]"
  using assms
  by (auto simp: CreateNewBlock_begin_def Let_def resetBlock_def on_block_def pblock_def
                 CBlockTemplate_new_def CBlock_new_def)

lemma stake_search_fields:
  assumes "stake_search env w a cb g = (False, a2, cb2, g2)"
  shows "nBlockWeight a2 = nBlockWeight a" "nBlockSigOpsCost a2 = nBlockSigOpsCost a"
    "inBlock a2 = inBlock a" "nBlockMaxWeight a2 = nBlockMaxWeight a"
    "vTxFees (pblocktemplate a2) = vTxFees (pblocktemplate a)"
    "vTxSigOpsCost (pblocktemplate a2) = vTxSigOpsCost (pblocktemplate a)"
    "\<exists>found txCoinStake.
        CreateCoinStake w (GetNextTargetRequired env True) 1 (masked_txCoinStake env) (nFees a)
          = (found, txCoinStake, nFees a2)
        \<and> vtx (pblock a2) = vtx (pblock a) @ [MakeTransactionRef (ComputeHash env) txCoinStake]"
  using assms
  by (auto simp: stake_search_def Let_def on_block_def pblock_def split: if_splits prod.splits)

text \<open>The assembler with which the selection starts.\<close>

lemma CreateNewBlock_setup_fields:
  assumes "CreateNewBlock_setup env a g scr pwallet cancel0 = Inr (a1, cb, g1, k)"
  shows "nBlockWeight a1 = 4000" "nBlockSigOpsCost a1 = 400" "inBlock a1 = []"
    "nBlockMaxWeight a1 = nBlockMaxWeight a"
    "vTxFees (pblocktemplate a1) = [- 1]" "vTxSigOpsCost (pblocktemplate a1) = [- 1]"
    "pwallet = None \<Longrightarrow> vtx (pblock a1) = [null_tx] \<and> nFees a1 = 0"
    "pwallet = Some w \<Longrightarrow>
       \<exists>found txCoinStake.
          CreateCoinStake w (GetNextTargetRequired env True) 1 (masked_txCoinStake env) 0
            = (found, txCoinStake, nFees a1)
          \<and> vtx (pblock a1) = [null_tx, MakeTransactionRef (ComputeHash env) txCoinStake]"
proof -
  obtain a0 cb0 where b: "CreateNewBlock_begin env a scr (pwallet = None) = (a0, cb0)"
    by (cases "CreateNewBlock_begin env a scr (pwallet = None)")
  note bf = CreateNewBlock_begin_fields [OF b]
  have flag: "nBlockWeight (on_block f x) = nBlockWeight x"
    "nBlockSigOpsCost (on_block f x) = nBlockSigOpsCost x" "inBlock (on_block f x) = inBlock x"
    "nBlockMaxWeight (on_block f x) = nBlockMaxWeight x" "nFees (on_block f x) = nFees x"
    "vTxFees (pblocktemplate (on_block f x)) = vTxFees (pblocktemplate x)"
    "vTxSigOpsCost (pblocktemplate (on_block f x)) = vTxSigOpsCost (pblocktemplate x)"
    for f x
    by (simp_all add: on_block_def)
  show "nBlockWeight a1 = 4000" "nBlockSigOpsCost a1 = 400" "inBlock a1 = []"
    "nBlockMaxWeight a1 = nBlockMaxWeight a"
    "vTxFees (pblocktemplate a1) = [- 1]" "vTxSigOpsCost (pblocktemplate a1) = [- 1]"
    using assms b bf stake_search_fields(1-6)
    by (auto simp: CreateNewBlock_setup_def flag split: option.splits prod.splits if_splits)
  show "vtx (pblock a1) = [null_tx] \<and> nFees a1 = 0" if "pwallet = None"
    using that assms b bf by (auto simp: CreateNewBlock_setup_def)
  show "\<exists>found txCoinStake.
          CreateCoinStake w (GetNextTargetRequired env True) 1 (masked_txCoinStake env) 0
            = (found, txCoinStake, nFees a1)
          \<and> vtx (pblock a1) = [null_tx, MakeTransactionRef (ComputeHash env) txCoinStake]"
    if "pwallet = Some w"
  proof -
    from that assms b obtain a2 where
      st: "stake_search env w a0 cb0 g = (False, a2, cb, g1)"
      and a1: "a1 = on_block (\<lambda>b. b\<lparr> nFlags := BLOCK_PROOF_OF_STAKE env \<rparr>) a2"
      by (auto simp: CreateNewBlock_setup_def split: prod.splits if_splits)
    from stake_search_fields(7) [OF st] bf(4,7) a1 show ?thesis
      by (auto simp: on_block_def pblock_def)
  qed
qed

lemma addPackageTxs_begin_fields:
  "asm (addPackageTxs_begin pool a x y) = a"
  "inBlock a = [] \<Longrightarrow> mapModifiedTx (addPackageTxs_begin pool a x y) = []"
  by (simp_all add: addPackageTxs_begin_def UpdatePackagesForAdded_def)

text \<open>What a returned template is made of.\<close>

lemma CreateNewBlock_returns:
  assumes "CreateNewBlock c env pool a g scr pwallet cancel0 = Inr r" and "returned r = Some t"
  shows "\<exists>a1 cb g1 k s hs.
           CreateNewBlock_setup env a g scr pwallet cancel0 = Inr (a1, cb, g1, k)
         \<and> visited c env pool (addPackageTxs_begin pool (prepare_selection env a1) 0 0) s
         \<and> assembled pool (prepare_selection env a1) hs (asm s)
         \<and> assembler r = fill_header c env (place_coinbase env cb (asm s))
         \<and> t = pblocktemplate (assembler r)
         \<and> statics r = g1\<lparr> m_last_block_num_txs := Some (nBlockTx (asm s)),
                           m_last_block_weight := Some (nBlockWeight (asm s)) \<rparr>"
proof (cases "CreateNewBlock_setup env a g scr pwallet cancel0")
  case (Inl r')
  with assms have "returned r = None"
    by (auto simp: CreateNewBlock_def CreateNewBlock_setup_def split: option.splits prod.splits if_splits)
  with assms(2) show ?thesis by simp
next
  case (Inr x)
  then obtain a1 cb g1 k where su: "CreateNewBlock_setup env a g scr pwallet cancel0 = Inr (a1, cb, g1, k)"
    by (cases x) auto
  with assms(1) have fin: "CreateNewBlock_finish c env pool a1 cb g1 k = Inr r"
    by (simp add: CreateNewBlock_def)
  from CreateNewBlock_finish_Inr [OF fin] obtain s :: selection where
    run: "addPackageTxs c env pool (prepare_selection env a1) 0 0 = Inr s"
    and r: "returned r = Some (pblocktemplate (fill_header c env (place_coinbase env cb (asm s))))"
       "assembler r = fill_header c env (place_coinbase env cb (asm s))"
       "statics r = g1\<lparr> m_last_block_num_txs := Some (nBlockTx (asm s)),
                        m_last_block_weight := Some (nBlockWeight (asm s)) \<rparr>"
    by blast
  let ?s0 = "addPackageTxs_begin pool (prepare_selection env a1) 0 0"
  have v: "visited c env pool ?s0 s"
    using run visited_final [OF _ visited.start] by (simp add: addPackageTxs_def)
  have "\<exists>hs. assembled pool (asm ?s0) hs (asm s)"
    using CreateNewBlock_setup_fields(1,2) [OF su]
    by (intro visited_assembled [OF v])
       (simp_all add: addPackageTxs_begin_fields prepare_selection_fields)
  then obtain hs where "assembled pool (prepare_selection env a1) hs (asm s)"
    by (auto simp: addPackageTxs_begin_fields)
  with su v r assms(2) show ?thesis by auto
qed

lemma sum_nth_tail:
  fixes xs :: "int list"
  shows "(\<Sum>i = 1 ..< length (x # xs). (x # xs) ! i) = sum_list xs"
proof -
  have "(\<Sum>i = 1 ..< length (x # xs). (x # xs) ! i) = (\<Sum>i = 0 ..< length xs. (x # xs) ! Suc i)"
    using sum.shift_bounds_nat_ivl [of "\<lambda>i. (x # xs) ! i" 0 1 "length xs"] by simp
  also have "\<dots> = (\<Sum>i = 0 ..< length xs. xs ! i)" by simp
  also have "\<dots> = sum_list xs" by (simp add: sum_list_sum_nth)
  finally show ?thesis .
qed

lemma template_vectors:
  assumes su: "CreateNewBlock_setup env a g scr pwallet cancel0 = Inr (a1, cb, g1, k)"
    and as: "assembled pool (prepare_selection env a1) hs a'"
  shows "\<exists>coinbase sigops.
           vtx (pblock (fill_header c env (place_coinbase env cb a')))
             = (vtx (pblock a1))[0 := coinbase] @ map (\<lambda>h. GetTx (entry pool h)) hs
         \<and> vTxFees (pblocktemplate (fill_header c env (place_coinbase env cb a')))
             = (- nFees a') # map (\<lambda>h. GetFee (entry pool h)) hs
         \<and> vTxSigOpsCost (pblocktemplate (fill_header c env (place_coinbase env cb a')))
             = sigops # map (\<lambda>h. GetSigOpCost (entry pool h)) hs"
    and "nFees a' = nFees a1 + sum_list (map (\<lambda>h. GetFee (entry pool h)) hs)"
    and "nBlockWeight a' = u64 (4000 + sum_list (map (\<lambda>h. GetTxWeight (entry pool h)) hs))"
    and "nBlockSigOpsCost a' = u64_of_int (400 + sum_list (map (\<lambda>h. GetSigOpCost (entry pool h)) hs))"
    and "set (inBlock a') = set hs"
    and "nBlockMaxWeight a' = nBlockMaxWeight a"
proof -
  note sf = CreateNewBlock_setup_fields [OF su]
  from as have v: "vtx (pblock a') = vtx (pblock a1) @ map (\<lambda>h. GetTx (entry pool h)) hs"
    and f: "vTxFees (pblocktemplate a') = [- 1] @ map (\<lambda>h. GetFee (entry pool h)) hs"
    and g: "vTxSigOpsCost (pblocktemplate a') = [- 1] @ map (\<lambda>h. GetSigOpCost (entry pool h)) hs"
    by (simp_all add: assembled_def prepare_selection_lists prepare_selection_fields sf(5,6))
  from as sf show "nFees a' = nFees a1 + sum_list (map (\<lambda>h. GetFee (entry pool h)) hs)"
    "nBlockWeight a' = u64 (4000 + sum_list (map (\<lambda>h. GetTxWeight (entry pool h)) hs))"
    "nBlockSigOpsCost a' = u64_of_int (400 + sum_list (map (\<lambda>h. GetSigOpCost (entry pool h)) hs))"
    "set (inBlock a') = set hs" "nBlockMaxWeight a' = nBlockMaxWeight a"
    by (simp_all add: assembled_def prepare_selection_fields)
  have ne: "vtx (pblock a1) \<noteq> []"
    using sf(7,8) by (cases pwallet) auto
  obtain coinbase where cbx: "vtx (pblock (place_coinbase env cb a')) = (vtx (pblock a'))[0 := coinbase]"
    using place_coinbase_fields(1) by blast
  obtain sigops where sg: "vTxSigOpsCost (pblocktemplate (fill_header c env (place_coinbase env cb a')))
                = (vTxSigOpsCost (pblocktemplate (place_coinbase env cb a')))[0 := sigops]"
    using fill_header_fields(3) by blast
  have 1: "vtx (pblock (fill_header c env (place_coinbase env cb a')))
             = (vtx (pblock a1))[0 := coinbase] @ map (\<lambda>h. GetTx (entry pool h)) hs"
    using ne by (cases "vtx (pblock a1)") (simp_all add: fill_header_fields(1) cbx v)
  have 2: "vTxFees (pblocktemplate (fill_header c env (place_coinbase env cb a')))
             = (- nFees a') # map (\<lambda>h. GetFee (entry pool h)) hs"
    by (simp add: fill_header_fields place_coinbase_fields f)
  have 3: "vTxSigOpsCost (pblocktemplate (fill_header c env (place_coinbase env cb a')))
             = sigops # map (\<lambda>h. GetSigOpCost (entry pool h)) hs"
    by (simp add: sg place_coinbase_fields g)
  from 1 2 3 show "\<exists>coinbase sigops.
           vtx (pblock (fill_header c env (place_coinbase env cb a')))
             = (vtx (pblock a1))[0 := coinbase] @ map (\<lambda>h. GetTx (entry pool h)) hs
         \<and> vTxFees (pblocktemplate (fill_header c env (place_coinbase env cb a')))
             = (- nFees a') # map (\<lambda>h. GetFee (entry pool h)) hs
         \<and> vTxSigOpsCost (pblocktemplate (fill_header c env (place_coinbase env cb a')))
             = sigops # map (\<lambda>h. GetSigOpCost (entry pool h)) hs"
    by blast
qed

lemma parents_first_no_later_spend:
  assumes pf: "parents_first pool hs" and sp: "spends_within_ancestors pool"
    and ij: "i < j" "j < length hs"
  shows "GetHash (GetTx (entry pool (hs ! j))) \<notin> spent_hashes (GetTx (entry pool (hs ! i)))"
proof
  assume sp_ij: "GetHash (GetTx (entry pool (hs ! j))) \<in> spent_hashes (GetTx (entry pool (hs ! i)))"
  from pf ij have lt: "hs ! i < length (mapTx pool)" "hs ! j < length (mapTx pool)"
    by (auto simp: parents_first_def subset_iff)
  with sp sp_ij have "hs ! j \<in> set (CalculateMemPoolAncestors pool (hs ! i))"
    by (auto simp: spends_within_ancestors_def)
  moreover from pf ij have "set (CalculateMemPoolAncestors pool (hs ! i)) \<subseteq> set (take i hs)"
    by (simp add: parents_first_def)
  ultimately have "hs ! j \<in> set (take i hs)" by blast
  then obtain m where m: "m < i" "hs ! m = hs ! j"
    using ij by (auto simp: in_set_conv_nth)
  moreover from pf have "distinct hs" by (simp add: parents_first_def)
  ultimately have "m = j" using ij by (simp add: nth_eq_iff_index_eq)
  with m(1) ij show False by simp
qed

text \<open>The three vectors of a returned template, over the selected entries.\<close>

lemma CreateNewBlock_vectors:
  assumes "CreateNewBlock c env pool a g scr pwallet cancel0 = Inr r" and "returned r = Some t"
  shows "\<exists>a1 cb g1 k hs coinbase sigops.
           CreateNewBlock_setup env a g scr pwallet cancel0 = Inr (a1, cb, g1, k)
         \<and> vtx (block t) = (vtx (pblock a1))[0 := coinbase] @ map (\<lambda>h. GetTx (entry pool h)) hs
         \<and> vTxFees t = (- nFees (assembler r)) # map (\<lambda>h. GetFee (entry pool h)) hs
         \<and> vTxSigOpsCost t = sigops # map (\<lambda>h. GetSigOpCost (entry pool h)) hs
         \<and> nFees (assembler r) = nFees a1 + sum_list (map (\<lambda>h. GetFee (entry pool h)) hs)"
proof -
  from CreateNewBlock_returns [OF assms] obtain a1 cb g1 k and s :: selection and hs where
    su: "CreateNewBlock_setup env a g scr pwallet cancel0 = Inr (a1, cb, g1, k)"
    and as: "assembled pool (prepare_selection env a1) hs (asm s)"
    and r: "assembler r = fill_header c env (place_coinbase env cb (asm s))"
    and t: "t = pblocktemplate (assembler r)"
    by blast
  have "nFees (assembler r) = nFees (asm s)"
    by (simp add: r fill_header_fields place_coinbase_fields)
  with template_vectors(1) [OF su as, of c] template_vectors(2) [OF su as] su show ?thesis
    by (auto simp: t r pblock_def)
qed

lemma ancestors_closedD:
  assumes "ancestors_closed pool" and "h < length (mapTx pool)"
  shows "distinct (CalculateMemPoolAncestors pool h)"
    and "h \<notin> set (CalculateMemPoolAncestors pool h)"
    and "a \<in> set (CalculateMemPoolAncestors pool h) \<Longrightarrow> a < length (mapTx pool)"
    and "a \<in> set (CalculateMemPoolAncestors pool h)
           \<Longrightarrow> set (CalculateMemPoolAncestors pool a) \<subseteq> set (CalculateMemPoolAncestors pool h)"
    and "a \<in> set (CalculateMemPoolAncestors pool h)
           \<Longrightarrow> GetCountWithAncestors (entry pool a) < GetCountWithAncestors (entry pool h)"
  using assms by (auto simp: ancestors_closed_def)

text \<open>What is known about a package that is about to be committed.\<close>

lemma body_Commit_package:
  assumes "addPackageTxs_body c env pool s = Commit anc s1"
    and "ancestors_closed pool"
    and "iter ` set (mapModifiedTx s) \<subseteq> {0 ..< length (mapTx pool)}"
  shows "\<exists>it um psize pfees psigops.
           it < length (mapTx pool) \<and> it \<notin> set (inBlock (asm s))
         \<and> set anc = insert it (set (CalculateMemPoolAncestors pool it) - set (inBlock (asm s)))
         \<and> distinct anc \<and> set anc \<subseteq> {0 ..< length (mapTx pool)}
         \<and> package_totals pool it um = (psize, pfees, psigops)
         \<and> TestPackage c (asm s) psize psigops
         \<and> (um = None \<or> (\<exists>modit \<in> set (mapModifiedTx s). um = Some modit \<and> it = iter modit))"
proof -
  from body_Commit_fields [OF assms(1)] obtain it um psize pfees psigops where
    ch: "choose_candidate pool s = (it, um, s1)"
    and cond: "mi s < length (mapTx pool) \<or> mapModifiedTx s \<noteq> []"
    and nin: "it \<notin> set (inBlock (asm s))"
    and pt: "package_totals pool it um = (psize, pfees, psigops)"
    and tp: "TestPackage c (asm s) psize psigops"
    and anc: "anc = List.insert it (onlyUnconfirmed (asm s) (CalculateMemPoolAncestors pool it))"
    by blast
  from choose_candidate_cases [OF ch cond] assms(3)
  have lt: "it < length (mapTx pool)"
    and um: "um = None \<or> (\<exists>modit \<in> set (mapModifiedTx s). um = Some modit \<and> it = iter modit)"
    by auto
  note ac = ancestors_closedD [OF assms(2) lt]
  have 1: "set anc = insert it (set (CalculateMemPoolAncestors pool it) - set (inBlock (asm s)))"
    by (auto simp: anc onlyUnconfirmed_def)
  have 2: "distinct anc"
    using ac(1,2) by (simp add: anc onlyUnconfirmed_def)
  have 3: "set anc \<subseteq> {0 ..< length (mapTx pool)}"
    using 1 lt ac(3) by auto
  from lt nin 1 2 3 pt tp um show ?thesis by blast
qed

lemma sorted_key_before:
  fixes f :: "'a \<Rightarrow> 'b :: linorder"
  assumes "sorted (map f ys)" and "j < length ys" and "a \<in> set ys" and "f a < f (ys ! j)"
  shows "a \<in> set (take j ys)"
proof -
  from assms(3) obtain i where i: "i < length ys" "ys ! i = a"
    by (auto simp: in_set_conv_nth)
  have "i < j"
  proof (rule ccontr)
    assume "\<not> i < j"
    then have "j \<le> i" by simp
    with assms(1) i(1) have "map f ys ! j \<le> map f ys ! i"
      by (intro sorted_nth_mono) simp_all
    with i assms(2,4) show False by simp
  qed
  with i show ?thesis by (auto simp: in_set_conv_nth)
qed

lemma parents_first_append:
  assumes ac: "ancestors_closed pool"
    and pf: "parents_first pool hs"
    and it: "it < length (mapTx pool)" "it \<notin> set hs"
    and anc: "set anc = insert it (set (CalculateMemPoolAncestors pool it) - set hs)" "distinct anc"
  shows "parents_first pool (hs @ take k (SortForBlock pool anc))"
proof -
  let ?A = "CalculateMemPoolAncestors pool"
  let ?key = "\<lambda>it. (GetCountWithAncestors (entry pool it), GetHash (GetTx (entry pool it)))"
  let ?ys = "SortForBlock pool anc"
  let ?n = "length (mapTx pool)"
  note aci = ancestors_closedD [OF ac it(1)]
  have set_ys: "set ?ys = set anc" by (simp add: SortForBlock_def)
  have dist_ys: "distinct ?ys" using anc(2) by (simp add: SortForBlock_def)
  have sorted_ys: "sorted (map ?key ?ys)" by (simp add: SortForBlock_def)
  have anc_n: "set anc \<subseteq> {0 ..< ?n}" using anc(1) it(1) aci(3) by auto
  have disj: "set hs \<inter> set anc = {}" using anc(1) it(2) by auto
  have anc_of: "set (?A x) \<subseteq> set (?A it)" if "x \<in> set anc" for x
    using that anc(1) aci(4) by auto
  from pf have d: "distinct hs" and sub: "set hs \<subseteq> {0 ..< ?n}"
    and before: "\<And>j. j < length hs \<Longrightarrow> set (?A (hs ! j)) \<subseteq> set (take j hs)"
    by (auto simp: parents_first_def)
  have 1: "distinct (hs @ take k ?ys)"
    using d dist_ys disj set_ys by (auto dest: in_set_takeD)
  have 2: "set (hs @ take k ?ys) \<subseteq> {0 ..< ?n}"
    using sub anc_n set_ys by (auto dest!: in_set_takeD)
  have 3: "set (?A ((hs @ take k ?ys) ! j)) \<subseteq> set (take j (hs @ take k ?ys))"
    if j: "j < length (hs @ take k ?ys)" for j
  proof (cases "j < length hs")
    case True
    with before [OF True] show ?thesis by (simp add: nth_append)
  next
    case False
    define i where "i = j - length hs"
    with False j have i: "i < k" "i < length ?ys" "j = length hs + i" by auto
    let ?x = "?ys ! i"
    have x_anc: "?x \<in> set anc" using i(2) set_ys nth_mem by blast
    then have x_n: "?x < ?n" using anc_n by auto
    have "set (?A ?x) \<subseteq> set hs \<union> set (take i ?ys)"
    proof
      fix a assume a: "a \<in> set (?A ?x)"
      show "a \<in> set hs \<union> set (take i ?ys)"
      proof (cases "a \<in> set hs")
        case True
        then show ?thesis by simp
      next
        case False
        from a anc_of [OF x_anc] have "a \<in> set (?A it)" by auto
        with False anc(1) set_ys have "a \<in> set ?ys" by auto
        moreover from ancestors_closedD(5) [OF ac x_n a]
        have "?key a < ?key ?x" by (simp add: less_prod_def)
        ultimately have "a \<in> set (take i ?ys)"
          using sorted_key_before [OF sorted_ys i(2)] by blast
        then show ?thesis by simp
      qed
    qed
    moreover have "(hs @ take k ?ys) ! j = ?x" using i by (simp add: nth_append)
    moreover have "take j (hs @ take k ?ys) = hs @ take i ?ys"
      using i by (simp add: min_def)
    ultimately show ?thesis by simp
  qed
  from 1 2 3 show ?thesis unfolding parents_first_def by blast
qed

text \<open>Every state the selection passes through has its entries in an order with parents
  first.\<close>

lemma visited_parents_first:
  assumes v: "visited c env pool s0 s"
    and ac: "ancestors_closed pool"
    and s0: "inBlock (asm s0) = []" "mapModifiedTx s0 = []"
      "nBlockWeight (asm s0) < 2 ^ 64" "nBlockSigOpsCost (asm s0) < 2 ^ 64"
  shows "\<exists>hs. assembled pool (asm s0) hs (asm s) \<and> parents_first pool hs"
proof -
  let ?n = "length (mapTx pool)"
  let ?P = "\<lambda>a (m :: indexed_modified_transaction_set).
      (\<exists>hs. assembled pool (asm s0) hs a \<and> parents_first pool hs) \<and> iter ` set m \<subseteq> {0 ..< ?n}"
  have step: "?P (fold (AddToBlock pool) (take k (SortForBlock pool anc)) (asm s))
                 (filter (\<lambda>e. iter e \<notin> set (take k (SortForBlock pool anc))) (mapModifiedTx s))"
    if P: "?P (asm s) (mapModifiedTx s)" and b: "addPackageTxs_body c env pool s = Commit anc s1"
    for s anc s1 k
  proof -
    from P obtain hs where hs: "assembled pool (asm s0) hs (asm s)" "parents_first pool hs"
      and it: "iter ` set (mapModifiedTx s) \<subseteq> {0 ..< ?n}" by blast
    from hs(1) s0(1) have inb: "set (inBlock (asm s)) = set hs" by (simp add: assembled_def)
    from body_Commit_package [OF b ac it] inb obtain it where
      "it < ?n" "it \<notin> set hs"
      "set anc = insert it (set (CalculateMemPoolAncestors pool it) - set hs)" "distinct anc"
      by auto
    from parents_first_append [OF ac hs(2) this]
    have "parents_first pool (hs @ take k (SortForBlock pool anc))" .
    with assembled_fold [OF hs(1)] it show ?thesis by auto
  qed
  have "?P (asm s) (mapModifiedTx s)"
  proof (rule visited_invariant [OF v, where P = ?P])
    have "parents_first pool []" by (simp add: parents_first_def)
    with assembled_start [OF s0(3,4), of pool] s0(2)
    show "?P (asm s0) (mapModifiedTx s0)" by auto
  next
    fix a m and m' :: indexed_modified_transaction_set
    assume "?P a m" "set m' \<subseteq> set m"
    then show "?P a m'" by blast
  next
    fix s anc s1 k
    assume "?P (asm s) (mapModifiedTx s)" "addPackageTxs_body c env pool s = Commit anc s1"
    then show "?P (fold (AddToBlock pool) (take k (SortForBlock pool anc)) (asm s))
                 (filter (\<lambda>e. iter e \<notin> set (take k (SortForBlock pool anc))) (mapModifiedTx s))"
      by (rule step)
  next
    fix s anc s1
    assume P: "?P (asm s) (mapModifiedTx s)" and b: "addPackageTxs_body c env pool s = Commit anc s1"
    from step [OF P b, of "length (SortForBlock pool anc)"]
    have "\<exists>hs. assembled pool (asm s0) hs (fold (AddToBlock pool) (SortForBlock pool anc) (asm s))
             \<and> parents_first pool hs"
      by simp
    moreover have "iter ` set (snd (UpdatePackagesForAdded pool anc
                         (filter (\<lambda>e. iter e \<notin> set anc) (mapModifiedTx s)))) \<subseteq> {0 ..< ?n}"
      using iters_UpdatePackagesForAdded [of pool anc "filter (\<lambda>e. iter e \<notin> set anc) (mapModifiedTx s)"] P
      by auto
    ultimately show "?P (fold (AddToBlock pool) (SortForBlock pool anc) (asm s))
                      (snd (UpdatePackagesForAdded pool anc
                         (filter (\<lambda>e. iter e \<notin> set anc) (mapModifiedTx s))))"
      by blast
  qed
  then show ?thesis by blast
qed

section \<open>Consecutive failures\<close>

lemma drop_failed_counter:
  "nConsecutiveFailed (drop_failed um it s) = nConsecutiveFailed s"
  by (simp add: drop_failed_def split: option.splits)

lemma fails_budget_test_body:
  assumes "fails_budget_test c env pool s"
  shows "\<exists>s'. asm s' = asm s \<and> nConsecutiveFailed s' = nConsecutiveFailed s + 1
           \<and> addPackageTxs_body c env pool s
               = (if nConsecutiveFailed s + 1 > MAX_CONSECUTIVE_FAILURES
                     \<and> nBlockWeight (asm s) > u64_sub (nBlockMaxWeight (asm s)) 4000
                  then Done s' else Again s')"
proof -
  obtain it um s1 where ch: "choose_candidate pool s = (it, um, s1)"
    by (cases "choose_candidate pool s")
  obtain psize pfees psigops where pt: "package_totals pool it um = (psize, pfees, psigops)"
    by (cases "package_totals pool it um")
  note f = choose_candidate_fields [OF ch] drop_failed_fields(1) [of um it s1]
    drop_failed_counter [of um it s1]
  let ?s' = "(drop_failed um it s1)\<lparr>nConsecutiveFailed := nConsecutiveFailed s1 + 1\<rparr>"
  from assms have "addPackageTxs_body c env pool s
               = (if nConsecutiveFailed s + 1 > MAX_CONSECUTIVE_FAILURES
                     \<and> nBlockWeight (asm s) > u64_sub (nBlockMaxWeight (asm s)) 4000
                  then Done ?s' else Again ?s')"
    using f by (auto simp: fails_budget_test_def addPackageTxs_body_def ch pt Let_def)
  moreover have "asm ?s' = asm s" "nConsecutiveFailed ?s' = nConsecutiveFailed s + 1"
    using f by simp_all
  ultimately show ?thesis by blast
qed

lemma passed_over_fields:
  assumes "addPackageTxs_body c env pool s = Again s'" and "\<not> fails_budget_test c env pool s"
  shows "nConsecutiveFailed s' = nConsecutiveFailed s"
proof -
  obtain it um s1 where ch: "choose_candidate pool s = (it, um, s1)"
    by (cases "choose_candidate pool s")
  obtain psize pfees psigops where pt: "package_totals pool it um = (psize, pfees, psigops)"
    by (cases "package_totals pool it um")
  note f = choose_candidate_fields [OF ch] drop_failed_counter [of um it s1]
  from assms f show ?thesis
    by (auto simp: fails_budget_test_def addPackageTxs_body_def ch pt Let_def
             split: if_splits)
qed

lemma rejections_fields:
  assumes "rejections c env pool s0 n s"
  shows "asm s = asm s0" "nConsecutiveFailed s = nConsecutiveFailed s0 + int n"
proof -
  from assms have "asm s = asm s0 \<and> nConsecutiveFailed s = nConsecutiveFailed s0 + int n"
  proof (induction rule: rejections.induct)
    case none
    show ?case by simp
  next
    case (rejected n s s')
    from fails_budget_test_body [OF rejected(3)] rejected(2)
    have "nConsecutiveFailed s' = nConsecutiveFailed s + 1"
      by (auto split: if_splits)
    with rejected.IH body_Again_fields(1) [OF rejected(2)] show ?case by simp
  next
    case (passed_over n s s')
    from passed_over.IH body_Again_fields(1) [OF passed_over(2)]
      passed_over_fields [OF passed_over(2,3)]
    show ?case by simp
  qed
  then show "asm s = asm s0" "nConsecutiveFailed s = nConsecutiveFailed s0 + int n"
    by simp_all
qed

lemma rejections_visited:
  assumes "rejections c env pool s0 n s"
  shows "visited c env pool s0 s"
  using assms
  by (induction rule: rejections.induct) (auto intro: visited.start visited.again)


section \<open>The budget of the block\<close>

subsection \<open>The modified set\<close>


















subsection \<open>Packages that pass the test\<close>


















section \<open>Properties\<close>

text \<open>
  C8. The effective weight limit is the requested one clamped into
  \<open>[4000, MAX_BLOCK_WEIGHT - 4000]\<close>: 4000 for requests below 4000,
  \<open>MAX_BLOCK_WEIGHT - 4000\<close> for requests above it, the request itself in between; and
  without \<^verbatim>\<open>-blockmaxweight\<close> the request is \<open>DEFAULT_BLOCK_MAX_WEIGHT\<close>. The consensus
  constant is assumed to leave room for both reservations
  (\<open>8000 \<le> MAX_BLOCK_WEIGHT\<close>) and the default to fit a \<^verbatim>\<open>size_t\<close>.
\<close>

theorem C8_max_weight_clamped:
  assumes "8000 \<le> MAX_BLOCK_WEIGHT c" and "DEFAULT_BLOCK_MAX_WEIGHT c < 2 ^ 64"
  shows "(opt_nBlockMaxWeight options < 4000 \<longrightarrow>
            nBlockMaxWeight (BlockAssembler_ctor c options raw) = 4000)
       \<and> (MAX_BLOCK_WEIGHT c - 4000 < opt_nBlockMaxWeight options \<longrightarrow>
            nBlockMaxWeight (BlockAssembler_ctor c options raw) = MAX_BLOCK_WEIGHT c - 4000)
       \<and> (4000 \<le> opt_nBlockMaxWeight options \<and> opt_nBlockMaxWeight options \<le> MAX_BLOCK_WEIGHT c - 4000 \<longrightarrow>
            nBlockMaxWeight (BlockAssembler_ctor c options raw) = opt_nBlockMaxWeight options)
       \<and> 4000 \<le> nBlockMaxWeight (BlockAssembler_ctor c options raw)
       \<and> nBlockMaxWeight (BlockAssembler_ctor c options raw) \<le> MAX_BLOCK_WEIGHT c - 4000
       \<and> (arg_blockmaxweight gArgs = None \<longrightarrow>
            opt_nBlockMaxWeight (DefaultOptions c ParseMoney gArgs) = DEFAULT_BLOCK_MAX_WEIGHT c)"
proof -
  have dflt: "opt_nBlockMaxWeight (DefaultOptions c ParseMoney gArgs) = DEFAULT_BLOCK_MAX_WEIGHT c"
    if "arg_blockmaxweight gArgs = None"
  proof -
    have "u64_of_int (int (DEFAULT_BLOCK_MAX_WEIGHT c)) = DEFAULT_BLOCK_MAX_WEIGHT c"
      using assms(2) by (simp add: u64_of_int_def nat_mod_distrib)
    with that show ?thesis
      by (simp add: DefaultOptions_def GetArg_def Options_default_def Let_def
               split: option.splits)
  qed
  from assms(1) dflt show ?thesis
    by (auto simp: BlockAssembler_ctor_def)
qed

theorem C8_max_weight_clamped_witness:
  "nBlockMaxWeight (BlockAssembler_ctor ex_consts
      \<lparr> opt_blockMinFeeRate = 1000, opt_nBlockMaxWeight = 100 \<rparr> ex_raw) = 4000
   \<and> nBlockMaxWeight (BlockAssembler_ctor ex_consts
      \<lparr> opt_blockMinFeeRate = 1000, opt_nBlockMaxWeight = 5000000 \<rparr> ex_raw) = 3996000
   \<and> opt_nBlockMaxWeight (DefaultOptions ex_consts (\<lambda>s. None)
      \<lparr> arg_blockmaxweight = None, arg_blockmintxfee = None \<rparr>) = 3996000"
proof -
  have h: "8000 \<le> MAX_BLOCK_WEIGHT ex_consts" "DEFAULT_BLOCK_MAX_WEIGHT ex_consts < 2 ^ 64"
    by (simp_all add: ex_consts_def)
  show ?thesis
    using C8_max_weight_clamped [OF h,
        of "\<lparr> opt_blockMinFeeRate = 1000, opt_nBlockMaxWeight = 100 \<rparr>" ex_raw
           "\<lparr> arg_blockmaxweight = None, arg_blockmintxfee = None \<rparr>" "\<lambda>s. None"]
      C8_max_weight_clamped [OF h,
        of "\<lparr> opt_blockMinFeeRate = 1000, opt_nBlockMaxWeight = 5000000 \<rparr>" ex_raw
           "\<lparr> arg_blockmaxweight = None, arg_blockmintxfee = None \<rparr>" "\<lambda>s. None"]
    by (simp add: ex_consts_def)
qed


text \<open>
  C4. With a wallet, when \<^verbatim>\<open>CreateCoinStake\<close> returns false, or no coinstake is placed for
  another reason (the masked time is not later than the last search, so that the wallet
  is not asked; or the coinstake found is not later than the median time past), the
  call returns null and leaves \<^verbatim>\<open>*pfPoSCancel\<close> true.
\<close>

theorem C4_pos_cancel:
  assumes "CreateCoinStake w (GetNextTargetRequired env True) 1 (masked_txCoinStake env) 0
             = (found, txCoinStake, fees)"
    and "\<not> found
         \<or> \<not> search_time_static env g < uint (tx_nTime (masked_txCoinStake env))
         \<or> \<not> GetMedianTimePast (Tip env) + 1 \<le> uint (tx_nTime txCoinStake)"
  shows "\<exists>r. CreateNewBlock c env pool a g scriptPubKeyIn (Some w) cancel0 = Inr r
             \<and> returned r = None \<and> pfPoSCancel r = True"
proof -
  obtain a1 cb where b: "CreateNewBlock_begin env a scriptPubKeyIn False = (a1, cb)"
    by (cases "CreateNewBlock_begin env a scriptPubKeyIn False")
  then have f: "nFees a1 = 0" using CreateNewBlock_begin_pos by blast
  have "fst (stake_search env w a1 cb g)"
    using assms f by (auto simp: stake_search_def Let_def on_block_def pblock_def)
  then show ?thesis
    using b by (auto simp: CreateNewBlock_def CreateNewBlock_setup_def split: prod.splits)
qed


theorem C4_pos_cancel_witness:
  "returned (projr (CreateNewBlock ex_consts ex_env ex_pool ex_asm ex_globals [7]
                      (Some ex_wallet_none) False)) = None
   \<and> pfPoSCancel (projr (CreateNewBlock ex_consts ex_env ex_pool ex_asm ex_globals [7]
                      (Some ex_wallet_none) False)) = True"
proof -
  have h1: "CreateCoinStake ex_wallet_none (GetNextTargetRequired ex_env True) 1
              (masked_txCoinStake ex_env) 0 = (False, masked_txCoinStake ex_env, 0)"
    by (simp add: ex_wallet_none_def)
  show ?thesis
    using C4_pos_cancel [OF h1, of ex_globals ex_consts ex_pool ex_asm "[7]" False]
    by auto
qed


text \<open>
  C6, as the code has it. A proof-of-stake block whose \<^verbatim>\<open>hashPrevBlock\<close> is not the hash
  of the current tip is refused: \<^verbatim>\<open>ProcessBlockFound\<close> returns false and hands nothing to
  \<^verbatim>\<open>ProcessNewBlock\<close>. The kernel check comes first (lines 539-540): the message is the
  stale one when that check has passed, and the one of the kernel check when it has
  not.
\<close>

theorem C6_stale_block_rejected:
  assumes "2 \<le> length (vtx b)" and "hashPrevBlock b \<noteq> tip_hash senv"
  shows "\<exists>r. ProcessBlockFound senv b = Inr r \<and> accepted r = False \<and> handed_over r = []
           \<and> (CheckProofOfStake senv (hashPrevBlock b) (vtx b ! 1) (nBits b)
                 (if tx_nTime (vtx b ! 1) \<noteq> 0 then tx_nTime (vtx b ! 1) else nTime b)
               \<longrightarrow> errors r = [''ProcessBlockFound(): generated block is stale''])
           \<and> (\<not> CheckProofOfStake senv (hashPrevBlock b) (vtx b ! 1) (nBits b)
                 (if tx_nTime (vtx b ! 1) \<noteq> 0 then tx_nTime (vtx b ! 1) else nTime b)
               \<longrightarrow> errors r = [''ProcessBlockFound(): proof-of-stake checking failed''])"
  using assms by (auto simp: ProcessBlockFound_def)

theorem C6_stale_block_rejected_witness:
  "accepted (projr (ProcessBlockFound ex_senv ex_stale_block)) = False
   \<and> handed_over (projr (ProcessBlockFound ex_senv ex_stale_block)) = []
   \<and> errors (projr (ProcessBlockFound ex_senv ex_stale_block))
       = [''ProcessBlockFound(): generated block is stale'']"
proof -
  have h: "2 \<le> length (vtx ex_stale_block)" "hashPrevBlock ex_stale_block \<noteq> tip_hash ex_senv"
    by (simp_all add: ex_stale_block_def ex_template_pos_def ex_senv_def)
  show ?thesis
    using C6_stale_block_rejected [OF h] by (auto simp: ex_senv_def)
qed

text \<open>
  A stale block that fails the kernel check is refused with the message of the kernel
  check, not with the stale one.
\<close>

theorem C6_counterexample:
  "hashPrevBlock ex_stale_block \<noteq> tip_hash ex_senv_kernel_fails
   \<and> ProcessBlockFound ex_senv_kernel_fails ex_stale_block
       = Inr \<lparr> accepted = False,
               errors = [''ProcessBlockFound(): proof-of-stake checking failed''],
               handed_over = [] \<rparr>
   \<and> errors (projr (ProcessBlockFound ex_senv_kernel_fails ex_stale_block))
       \<noteq> [''ProcessBlockFound(): generated block is stale'']"
  by (simp add: ProcessBlockFound_def ex_senv_kernel_fails_def ex_stale_block_def
        ex_template_pos_def)

text \<open>
  C7, as the code has it. A call that takes the cancel path returns null and leaves
  \<^verbatim>\<open>m_last_block_num_txs\<close> and \<^verbatim>\<open>m_last_block_weight\<close> alone. The search variables
  keep their values only when no search is made (the masked time is not later than the
  last search time); a search that fails sets \<^verbatim>\<open>nLastCoinStakeSearchInterval\<close> to the
  time since the last search and the static \<^verbatim>\<open>nLastCoinStakeSearchTime\<close> to the search
  time (lines 189-190).
\<close>

theorem C7_cancel_path_statics:
  assumes "CreateNewBlock c env pool a g scriptPubKeyIn (Some w) cancel0 = Inr r"
    and "returned r = None"
  shows "m_last_block_num_txs (statics r) = m_last_block_num_txs g
       \<and> m_last_block_weight (statics r) = m_last_block_weight g
       \<and> (if search_time_static env g < uint (tx_nTime (masked_txCoinStake env))
          then nLastCoinStakeSearchInterval (statics r)
                 = uint (tx_nTime (masked_txCoinStake env)) - search_time_static env g
             \<and> nLastCoinStakeSearchTime (statics r)
                 = Some (uint (tx_nTime (masked_txCoinStake env)))
          else nLastCoinStakeSearchInterval (statics r) = nLastCoinStakeSearchInterval g
             \<and> nLastCoinStakeSearchTime (statics r) = Some (search_time_static env g))"
proof -
  obtain a1 cb where b: "CreateNewBlock_begin env a scriptPubKeyIn False = (a1, cb)"
    by (cases "CreateNewBlock_begin env a scriptPubKeyIn False")
  obtain cancel a2 cb2 g2 where st: "stake_search env w a1 cb g = (cancel, a2, cb2, g2)"
    by (cases "stake_search env w a1 cb g")
  have fin: "returned r' \<noteq> None" if "CreateNewBlock_finish c env pool a' cb' g' k = Inr r'"
    for a' cb' g' k r'
    using that
    by (auto simp: CreateNewBlock_finish_def Let_def split: sum.splits if_splits)
  from assms b st fin [of "on_block (\<lambda>b. b\<lparr> nFlags := BLOCK_PROOF_OF_STAKE env \<rparr>) a2" cb2 g2 cancel r]
  have "cancel" and r: "statics r = g2"
    by (auto simp: CreateNewBlock_def CreateNewBlock_setup_def split: if_splits)
  have "g2 = (if search_time_static env g < uint (tx_nTime (masked_txCoinStake env))
              then g\<lparr> nLastCoinStakeSearchInterval :=
                       uint (tx_nTime (masked_txCoinStake env)) - search_time_static env g,
                     nLastCoinStakeSearchTime := Some (uint (tx_nTime (masked_txCoinStake env))) \<rparr>
              else g\<lparr> nLastCoinStakeSearchTime := Some (search_time_static env g) \<rparr>)"
    using st by (auto simp: stake_search_def Let_def split: if_splits prod.splits)
  with r show ?thesis by simp
qed

theorem C7_cancel_path_statics_witness:
  "nLastCoinStakeSearchInterval (statics (projr (CreateNewBlock ex_consts ex_env ex_pool ex_asm
       ex_globals [7] (Some ex_wallet_none) False))) = 16
   \<and> nLastCoinStakeSearchTime (statics (projr (CreateNewBlock ex_consts ex_env ex_pool ex_asm
       ex_globals [7] (Some ex_wallet_none) False))) = Some 1600
   \<and> m_last_block_weight (statics (projr (CreateNewBlock ex_consts ex_env ex_pool ex_asm
       ex_globals [7] (Some ex_wallet_none) False))) = None"
proof -
  have run: "CreateNewBlock ex_consts ex_env ex_pool ex_asm ex_globals [7] (Some ex_wallet_none) False
      = Inr (projr (CreateNewBlock ex_consts ex_env ex_pool ex_asm ex_globals [7] (Some ex_wallet_none) False))"
    and none: "returned (projr (CreateNewBlock ex_consts ex_env ex_pool ex_asm ex_globals [7]
        (Some ex_wallet_none) False)) = None"
    by (simp_all add: model_defs ex_sel ex_sel2 Let_def cong: let_weak_cong prod.case_cong_weak)
  show ?thesis
    using C7_cancel_path_statics [OF run none]
    by (simp add: search_time_static_def masked_txCoinStake_def ex_sel ex_globals_def)
qed


text \<open>
  C7 as claimed fails: with a wallet that finds nothing at search time 1600, after a
  last search at 1584, the cancelled call changes both search variables.
\<close>

theorem C7_counterexample:
  "\<not> isl (CreateNewBlock ex_consts ex_env ex_pool ex_asm ex_globals [7] (Some ex_wallet_none) False)
   \<and> returned (projr (CreateNewBlock ex_consts ex_env ex_pool ex_asm ex_globals [7]
        (Some ex_wallet_none) False)) = None
   \<and> nLastCoinStakeSearchInterval ex_globals = 0
   \<and> nLastCoinStakeSearchInterval (statics (projr (CreateNewBlock ex_consts ex_env ex_pool ex_asm
        ex_globals [7] (Some ex_wallet_none) False))) = 16
   \<and> nLastCoinStakeSearchTime ex_globals = Some 1584
   \<and> nLastCoinStakeSearchTime (statics (projr (CreateNewBlock ex_consts ex_env ex_pool ex_asm
        ex_globals [7] (Some ex_wallet_none) False))) = Some 1600"
  by (simp add: model_defs ex_sel ex_sel2 Let_def cong: let_weak_cong prod.case_cong_weak)


text \<open>
  C9, as the code has it. When the median time past plus one and the clock that
  \<^verbatim>\<open>UpdateTime\<close> reads fit the 32-bit time field of the header, a proof-of-work template
  has a header time of at least the median time past plus one and at least the time of
  each of its transactions, and \<^verbatim>\<open>UpdateTime\<close> does not lower the time of a block.
\<close>

theorem C9_pow_header_time:
  assumes "CreateNewBlock c env pool a g scriptPubKeyIn None cancel0 = Inr r"
    and "returned r = Some t"
    and "GetMedianTimePast (Tip env) + 1 < 2 ^ 32" and "now_at_update env < 2 ^ 32"
  shows "max (GetMedianTimePast (Tip env) + 1) (GetMaxTransactionTime (block t))
           \<le> uint (nTime (block t))
       \<and> (\<forall>tx \<in> set (vtx (block t)). uint (tx_nTime tx) \<le> uint (nTime (block t)))
       \<and> uint (nTime b) \<le> uint (nTime (fst (UpdateTime env b)))"
proof -
  obtain a1 cb where b: "CreateNewBlock_begin env a scriptPubKeyIn True = (a1, cb)"
    by (cases "CreateNewBlock_begin env a scriptPubKeyIn True")
  let ?g = "g\<lparr> nLastCoinStakeSearchTime := Some (search_time_static env g) \<rparr>"
  from assms(1) b have fin: "CreateNewBlock_finish c env pool a1 cb ?g cancel0 = Inr r"
    by (simp add: CreateNewBlock_def CreateNewBlock_setup_def)
  from CreateNewBlock_finish_Inr [OF fin] obtain s :: selection where
    "returned r = Some (pblocktemplate (fill_header c env (place_coinbase env cb (asm s))))"
    by blast
  with assms(2) have t: "t = pblocktemplate (fill_header c env (place_coinbase env cb (asm s)))"
    by simp
  let ?a = "place_coinbase env cb (asm s)"
  have bt: "block t = pblock (fill_header c env ?a)" by (simp add: t pblock_def)
  have "GetMaxTransactionTime (block t) = GetMaxTransactionTime (pblock ?a)"
    by (simp add: bt GetMaxTransactionTime_def fill_header_time(2) [OF assms(3,4)])
  with fill_header_time(1) [OF assms(3,4), of ?a c]
  have 1: "max (GetMedianTimePast (Tip env) + 1) (GetMaxTransactionTime (block t))
           \<le> uint (nTime (block t))"
    by (simp add: bt)
  have 2: "\<forall>tx \<in> set (vtx (block t)). uint (tx_nTime tx) \<le> uint (nTime (block t))"
    using 1 GetMaxTransactionTime_bounds(3) [of _ "block t"] by fastforce
  from 1 2 UpdateTime_raises(1) [OF assms(3,4)] show ?thesis by blast
qed


theorem C9_pow_header_time_witness:
  "max (GetMedianTimePast (Tip ex_env) + 1) (GetMaxTransactionTime (block ex_template_pow))
           \<le> uint (nTime (block ex_template_pow))
   \<and> uint (nTime (block ex_template_pow)) = 1601
   \<and> GetMaxTransactionTime (block ex_template_pow) = 1600
   \<and> uint (tx_nTime (vtx (block ex_template_pow) ! 1)) \<le> uint (nTime (block ex_template_pow))"
proof -
  have h: "returned ex_result_pow = Some ex_template_pow"
    "GetMedianTimePast (Tip ex_env) + 1 < 2 ^ 32" "now_at_update ex_env < 2 ^ 32"
    by (simp_all add: ex_result_pow_def ex_sel)
  show ?thesis
    using C9_pow_header_time [OF ex_run_pow h]
    by (simp add: ex_template_pow_def GetMaxTransactionTime_def ex_sel)
qed



text \<open>
  Past the range of the time field both assignments (lines 51 and 244) keep the low 32
  bits: with the clock at \<open>2\<^sup>3\<^sup>2 + 5\<close>, \<^verbatim>\<open>UpdateTime\<close> lowers a block time of 10 to 5, and
  with a median time past of \<open>2\<^sup>3\<^sup>2 - 1\<close> the returned proof-of-work template has the
  header time 0.
\<close>

theorem C9_counterexample:
  "uint (nTime ex_block_10) = 10
   \<and> uint (nTime (fst (UpdateTime ex_env_clock_2106 ex_block_10))) = 5
   \<and> \<not> uint (nTime ex_block_10) \<le> uint (nTime (fst (UpdateTime ex_env_clock_2106 ex_block_10)))
   \<and> returned (projr (CreateNewBlock ex_consts ex_env_mtp_2106 ex_pool ex_asm ex_globals [7]
                        None False)) \<noteq> None
   \<and> uint (nTime (block (the (returned (projr
        (CreateNewBlock ex_consts ex_env_mtp_2106 ex_pool ex_asm ex_globals [7] None False))))))
       = 0
   \<and> GetMedianTimePast (Tip ex_env_mtp_2106) + 1 = 4294967296"
proof -
  have "uint (nTime ex_block_10) = 10
      \<and> uint (nTime (fst (UpdateTime ex_env_clock_2106 ex_block_10))) = 5"
    by (simp add: UpdateTime_def ex_env_clock_2106_def ex_block_10_def ex_env_sel Let_def
          CBlock_new_def)
  moreover have "returned (projr (CreateNewBlock ex_consts ex_env_mtp_2106 ex_pool ex_asm
                                    ex_globals [7] None False)) \<noteq> None
      \<and> uint (nTime (block (the (returned (projr
           (CreateNewBlock ex_consts ex_env_mtp_2106 ex_pool ex_asm ex_globals [7] None False))))))
          = 0"
    by (simp add: model_defs ex_sel ex_sel2 Let_def addPackageTxs_loop.simps ex_env_mtp_2106_def
             cong: let_weak_cong prod.case_cong_weak)
  moreover have "GetMedianTimePast (Tip ex_env_mtp_2106) + 1 = 4294967296"
    by (simp add: ex_env_mtp_2106_def)
  ultimately show ?thesis by simp
qed

subsection \<open>More about the example inputs\<close>

lemma ex_returned:
  "returned ex_result_pos = Some ex_template_pos"
  "returned ex_result_pow = Some ex_template_pow"
  by (simp_all add: ex_result_pos_def ex_result_pow_def)

lemma ex_wallet_found_fees:
  "snd (snd (CreateCoinStake ex_wallet_found bits interval tx fees)) = fees"
  by (simp add: ex_wallet_found_def)

lemma ex_pool_handles: "set [0 ..< length (mapTx ex_pool)] = {0, 1, 2, 3}"
proof -
  have "length (mapTx ex_pool) = 4" by (simp add: ex_pool_sel)
  moreover have "set [0 ..< 4] = {0, 1, 2, 3::nat}" by auto
  ultimately show ?thesis by (simp only:)
qed

lemma ex_pool_ancestors_closed: "ancestors_closed ex_pool"
  unfolding ancestors_closed_def ex_pool_handles
  by (simp add: ex_sel)


lemma ex_pool_spends_within_ancestors: "spends_within_ancestors ex_pool"
  unfolding spends_within_ancestors_def ex_pool_handles
  by (simp add: spent_hashes_def ex_sel)

lemma ex_coinstake_spends_outside:
  "\<forall>h < length (mapTx ex_pool).
     GetHash (GetTx (entry ex_pool h))
       \<notin> spent_hashes (fst (snd (CreateCoinStake ex_wallet_found bits interval tx fees)))"
proof -
  have "h < length (mapTx ex_pool) \<longleftrightarrow> h \<in> {0, 1, 2, 3}" for h
    using ex_pool_handles by (metis atLeast_upt lessThan_iff set_upt atLeast0LessThan)
  then show ?thesis
    by (simp add: ex_wallet_found_def spent_hashes_def ex_sel)
qed

text \<open>
  C3. In every returned template, proof-of-work or proof-of-stake, the first fee entry
  is the negated sum of the later ones. The wallet is handed the fee total by reference
  when it is asked for a coinstake; it is taken to leave the total as it is.
\<close>

theorem C3_coinbase_fee_backfill:
  assumes "CreateNewBlock c env pool a g scriptPubKeyIn pwallet cancel0 = Inr r"
    and "returned r = Some t"
    and "\<And>w. pwallet = Some w \<Longrightarrow>
           snd (snd (CreateCoinStake w (GetNextTargetRequired env True) 1
                       (masked_txCoinStake env) 0)) = 0"
  shows "vTxFees t \<noteq> []
       \<and> vTxFees t ! 0 = - (\<Sum>i = 1 ..< length (vTxFees t). vTxFees t ! i)"
proof -
  from CreateNewBlock_vectors [OF assms(1,2)] obtain a1 cb g1 k hs where
    su: "CreateNewBlock_setup env a g scriptPubKeyIn pwallet cancel0 = Inr (a1, cb, g1, k)"
    and f: "vTxFees t = (- nFees (assembler r)) # map (\<lambda>h. GetFee (entry pool h)) hs"
    and n: "nFees (assembler r) = nFees a1 + sum_list (map (\<lambda>h. GetFee (entry pool h)) hs)"
    by blast
  have "nFees a1 = 0"
  proof (cases pwallet)
    case None
    with CreateNewBlock_setup_fields(7) [OF su] show ?thesis by simp
  next
    case (Some w)
    from CreateNewBlock_setup_fields(8) [OF su Some] assms(3) [OF Some] show ?thesis
      by (metis snd_conv)
  qed
  with n have "nFees (assembler r) = sum_list (map (\<lambda>h. GetFee (entry pool h)) hs)" by simp
  with f show ?thesis by (simp only: sum_nth_tail) simp
qed



theorem C3_coinbase_fee_backfill_witness:
  "vTxFees ex_template_pos \<noteq> []
   \<and> vTxFees ex_template_pos ! 0
       = - (\<Sum>i = 1 ..< length (vTxFees ex_template_pos). vTxFees ex_template_pos ! i)
   \<and> vTxFees ex_template_pos = [- 6800, 2500, 0, 4000, 300]"
proof -
  have w: "snd (snd (CreateCoinStake w (GetNextTargetRequired ex_env True) 1
                       (masked_txCoinStake ex_env) 0)) = 0"
    if "Some ex_wallet_found = Some w" for w
    using that ex_wallet_found_fees by auto
  have "vTxFees ex_template_pos = [- 6800, 2500, 0, 4000, 300]"
    by (simp add: ex_template_pos_def)
  with C3_coinbase_fee_backfill [OF ex_run_pos ex_returned(1) w] show ?thesis
    by blast
qed

text \<open>
  C10. In a proof-of-stake template the transaction list is one longer than the fee
  and the sigops vectors: the coinstake at index 1 has no entry of its own, and entry
  \<open>i\<close> of the vectors belongs to the transaction at \<open>i + 1\<close>. In a proof-of-work template
  the three are aligned.
\<close>

theorem C10_coinstake_without_fee_and_sigops_entries:
  assumes "CreateNewBlock c env pool a g scriptPubKeyIn pwallet cancel0 = Inr r"
    and "returned r = Some t"
  shows "(pwallet \<noteq> None \<longrightarrow>
            length (vtx (block t)) = length (vTxFees t) + 1
          \<and> length (vtx (block t)) = length (vTxSigOpsCost t) + 1
          \<and> (\<forall>i. 1 \<le> i \<and> i < length (vTxFees t) \<longrightarrow>
                (\<exists>h. vtx (block t) ! (i + 1) = GetTx (entry pool h)
                   \<and> vTxFees t ! i = GetFee (entry pool h)
                   \<and> vTxSigOpsCost t ! i = GetSigOpCost (entry pool h))))
       \<and> (pwallet = None \<longrightarrow>
            length (vtx (block t)) = length (vTxFees t)
          \<and> length (vtx (block t)) = length (vTxSigOpsCost t)
          \<and> (\<forall>i. 1 \<le> i \<and> i < length (vTxFees t) \<longrightarrow>
                (\<exists>h. vtx (block t) ! i = GetTx (entry pool h)
                   \<and> vTxFees t ! i = GetFee (entry pool h)
                   \<and> vTxSigOpsCost t ! i = GetSigOpCost (entry pool h))))"
proof -
  from CreateNewBlock_vectors [OF assms(1,2)] obtain a1 cb g1 k hs coinbase sigops where
    su: "CreateNewBlock_setup env a g scriptPubKeyIn pwallet cancel0 = Inr (a1, cb, g1, k)"
    and v: "vtx (block t) = (vtx (pblock a1))[0 := coinbase] @ map (\<lambda>h. GetTx (entry pool h)) hs"
    and f: "vTxFees t = (- nFees (assembler r)) # map (\<lambda>h. GetFee (entry pool h)) hs"
    and s: "vTxSigOpsCost t = sigops # map (\<lambda>h. GetSigOpCost (entry pool h)) hs"
    by blast
  show ?thesis
  proof (cases pwallet)
    case None
    with CreateNewBlock_setup_fields(7) [OF su] have "vtx (pblock a1) = [null_tx]" by simp
    with v have v': "vtx (block t) = coinbase # map (\<lambda>h. GetTx (entry pool h)) hs" by simp
    have "\<exists>h. vtx (block t) ! i = GetTx (entry pool h)
                   \<and> vTxFees t ! i = GetFee (entry pool h)
                   \<and> vTxSigOpsCost t ! i = GetSigOpCost (entry pool h)"
      if "1 \<le> i" "i < length (vTxFees t)" for i
    proof -
      from that f obtain j where j: "i = Suc j" "j < length hs" by (cases i) auto
      then show ?thesis by (intro exI [of _ "hs ! j"]) (simp add: v' f s)
    qed
    then have al: "\<forall>i. 1 \<le> i \<and> i < length (vTxFees t) \<longrightarrow>
                (\<exists>h. vtx (block t) ! i = GetTx (entry pool h)
                   \<and> vTxFees t ! i = GetFee (entry pool h)
                   \<and> vTxSigOpsCost t ! i = GetSigOpCost (entry pool h))"
      by blast
    have "length (vtx (block t)) = length (vTxFees t)"
      "length (vtx (block t)) = length (vTxSigOpsCost t)"
      by (simp_all add: v' f s)
    with None al show ?thesis by blast
  next
    case (Some w)
    from CreateNewBlock_setup_fields(8) [OF su Some] obtain cs where
      "vtx (pblock a1) = [null_tx, cs]" by blast
    with v have v': "vtx (block t) = coinbase # cs # map (\<lambda>h. GetTx (entry pool h)) hs" by simp
    have "\<exists>h. vtx (block t) ! (i + 1) = GetTx (entry pool h)
                   \<and> vTxFees t ! i = GetFee (entry pool h)
                   \<and> vTxSigOpsCost t ! i = GetSigOpCost (entry pool h)"
      if "1 \<le> i" "i < length (vTxFees t)" for i
    proof -
      from that f obtain j where j: "i = Suc j" "j < length hs" by (cases i) auto
      then show ?thesis by (intro exI [of _ "hs ! j"]) (simp add: v' f s)
    qed
    then have al: "\<forall>i. 1 \<le> i \<and> i < length (vTxFees t) \<longrightarrow>
                (\<exists>h. vtx (block t) ! (i + 1) = GetTx (entry pool h)
                   \<and> vTxFees t ! i = GetFee (entry pool h)
                   \<and> vTxSigOpsCost t ! i = GetSigOpCost (entry pool h))"
      by blast
    have "length (vtx (block t)) = length (vTxFees t) + 1"
      "length (vtx (block t)) = length (vTxSigOpsCost t) + 1"
      by (simp_all add: v' f s)
    with Some al show ?thesis by blast
  qed
qed


theorem C10_coinstake_without_fee_and_sigops_entries_witness:
  "length (vtx (block ex_template_pos)) = length (vTxFees ex_template_pos) + 1
   \<and> length (vtx (block ex_template_pos)) = length (vTxSigOpsCost ex_template_pos) + 1
   \<and> (\<exists>h. vtx (block ex_template_pos) ! (1 + 1) = GetTx (entry ex_pool h)
          \<and> vTxFees ex_template_pos ! 1 = GetFee (entry ex_pool h)
          \<and> vTxSigOpsCost ex_template_pos ! 1 = GetSigOpCost (entry ex_pool h))
   \<and> length (vtx (block ex_template_pow)) = length (vTxFees ex_template_pow)
   \<and> length (vtx (block ex_template_pow)) = length (vTxSigOpsCost ex_template_pow)
   \<and> (\<exists>h. vtx (block ex_template_pow) ! 1 = GetTx (entry ex_pool h)
          \<and> vTxFees ex_template_pow ! 1 = GetFee (entry ex_pool h)
          \<and> vTxSigOpsCost ex_template_pow ! 1 = GetSigOpCost (entry ex_pool h))
   \<and> length (vtx (block ex_template_pos)) = 6 \<and> length (vTxFees ex_template_pos) = 5"
proof -
  have i: "(1::nat) \<le> 1 \<and> 1 < length (vTxFees ex_template_pos)"
    "(1::nat) \<le> 1 \<and> 1 < length (vTxFees ex_template_pow)"
    by (simp_all add: ex_template_pos_def ex_template_pow_def)
  have w: "Some ex_wallet_found \<noteq> None" "(None :: CWallet option) = None"
    by simp_all
  have n: "length (vtx (block ex_template_pos)) = 6 \<and> length (vTxFees ex_template_pos) = 5"
    by (simp add: ex_template_pos_def)
  from C10_coinstake_without_fee_and_sigops_entries [OF ex_run_pos ex_returned(1)]
    C10_coinstake_without_fee_and_sigops_entries [OF ex_run_pow ex_returned(2)] i w n
  show ?thesis
    by blast
qed

text \<open>
  C2. The transactions of a returned template after the coinbase are in topological
  order: none of them spends an output of a later one. The selected entries come
  parents first: every in-mempool ancestor of an entry stands before it. The mempool is
  taken to keep its ancestor sets closed and to contain every in-pool transaction an
  entry spends from among the entry's ancestors; the coinstake is taken to spend no
  output of a mempool transaction.
\<close>

theorem C2_topological_order:
  assumes "ancestors_closed pool" and "spends_within_ancestors pool"
    and "CreateNewBlock c env pool a g scriptPubKeyIn pwallet cancel0 = Inr r"
    and "returned r = Some t"
    and "\<And>w. pwallet = Some w \<Longrightarrow>
           \<forall>h < length (mapTx pool).
             GetHash (GetTx (entry pool h))
               \<notin> spent_hashes (fst (snd (CreateCoinStake w (GetNextTargetRequired env True) 1
                                          (masked_txCoinStake env) 0)))"
  shows "(\<forall>i j. 1 \<le> i \<and> i < j \<and> j < length (vtx (block t))
            \<longrightarrow> GetHash (vtx (block t) ! j) \<notin> spent_hashes (vtx (block t) ! i))
       \<and> (\<exists>hs. parents_first pool hs
              \<and> drop (if pwallet = None then 1 else 2) (vtx (block t))
                  = map (\<lambda>h. GetTx (entry pool h)) hs)"
proof -
  from CreateNewBlock_returns [OF assms(3,4)] obtain a1 cb g1 k and s :: selection where
    su: "CreateNewBlock_setup env a g scriptPubKeyIn pwallet cancel0 = Inr (a1, cb, g1, k)"
    and v: "visited c env pool (addPackageTxs_begin pool (prepare_selection env a1) 0 0) s"
    and r: "assembler r = fill_header c env (place_coinbase env cb (asm s))"
    and t: "t = pblocktemplate (assembler r)"
    by blast
  note sf = CreateNewBlock_setup_fields [OF su]
  from visited_parents_first [OF v assms(1)] sf(1-3)
  obtain hs where as: "assembled pool (prepare_selection env a1) hs (asm s)"
    and pf: "parents_first pool hs"
    by (auto simp: addPackageTxs_begin_fields prepare_selection_fields)
  from template_vectors(1) [OF su as, of c] obtain coinbase where
    vt: "vtx (block t) = (vtx (pblock a1))[0 := coinbase] @ map (\<lambda>h. GetTx (entry pool h)) hs"
    by (auto simp: t r pblock_def)
  let ?tx = "\<lambda>h. GetTx (entry pool h)"
  show ?thesis
  proof (cases pwallet)
    case None
    with sf(7) vt have vt': "vtx (block t) = coinbase # map ?tx hs" by simp
    have "GetHash (vtx (block t) ! j) \<notin> spent_hashes (vtx (block t) ! i)"
      if "1 \<le> i" "i < j" "j < length (vtx (block t))" for i j
    proof -
      from that vt' obtain i' j' where "i = Suc i'" "j = Suc j'" "i' < j'" "j' < length hs"
        by (cases i; cases j) auto
      with parents_first_no_later_spend [OF pf assms(2), of i' j'] show ?thesis
        by (simp add: vt')
    qed
    with None vt' pf show ?thesis by auto
  next
    case (Some w)
    from sf(8) [OF Some] obtain found cs where
      cs: "CreateCoinStake w (GetNextTargetRequired env True) 1 (masked_txCoinStake env) 0
             = (found, cs, nFees a1)"
      and pre: "vtx (pblock a1) = [null_tx, MakeTransactionRef (ComputeHash env) cs]"
      by blast
    let ?cs = "MakeTransactionRef (ComputeHash env) cs"
    from pre vt have vt': "vtx (block t) = coinbase # ?cs # map ?tx hs" by simp
    have stake: "GetHash (?tx h) \<notin> spent_hashes ?cs" if "h < length (mapTx pool)" for h
      using assms(5) [OF Some] cs that
      by (simp add: spent_hashes_def MakeTransactionRef_def)
    have "GetHash (vtx (block t) ! j) \<notin> spent_hashes (vtx (block t) ! i)"
      if ij: "1 \<le> i" "i < j" "j < length (vtx (block t))" for i j
    proof (cases "i = 1")
      case True
      with ij vt' obtain j' where j': "j = Suc (Suc j')" "j' < length hs"
        by (cases j; cases "j - 1") auto
      with pf have "hs ! j' < length (mapTx pool)"
        by (auto simp: parents_first_def subset_iff)
      from stake [OF this] True j' show ?thesis by (simp add: vt')
    next
      case False
      with ij vt' obtain i' j' where "i = Suc (Suc i')" "j = Suc (Suc j')" "i' < j'" "j' < length hs"
        by (cases i; cases j; cases "i - 1"; cases "j - 1") auto
      with parents_first_no_later_spend [OF pf assms(2), of i' j'] show ?thesis
        by (simp add: vt')
    qed
    with Some vt' pf show ?thesis by auto
  qed
qed


theorem C2_topological_order_witness:
  "GetHash (vtx (block ex_template_pos) ! 4) \<notin> spent_hashes (vtx (block ex_template_pos) ! 3)
   \<and> (\<exists>hs. parents_first ex_pool hs
          \<and> drop (if Some ex_wallet_found = None then 1 else 2) (vtx (block ex_template_pos))
              = map (\<lambda>h. GetTx (entry ex_pool h)) hs)
   \<and> GetHash (vtx (block ex_template_pow) ! 3) \<notin> spent_hashes (vtx (block ex_template_pow) ! 1)
   \<and> GetHash (vtx (block ex_template_pos) ! 3) \<in> spent_hashes (vtx (block ex_template_pos) ! 4)
   \<and> map GetHash (vtx (block ex_template_pos)) = [9002, 9003, 10, 20, 30, 40]"
proof -
  have w: "\<forall>h < length (mapTx ex_pool).
             GetHash (GetTx (entry ex_pool h))
               \<notin> spent_hashes (fst (snd (CreateCoinStake w (GetNextTargetRequired ex_env True) 1
                                          (masked_txCoinStake ex_env) 0)))"
    if "Some ex_wallet_found = Some w" for w
    using that ex_coinstake_spends_outside by auto
  have n: "\<forall>h < length (mapTx ex_pool).
             GetHash (GetTx (entry ex_pool h))
               \<notin> spent_hashes (fst (snd (CreateCoinStake w (GetNextTargetRequired ex_env False) 1
                                          (masked_txCoinStake ex_env) 0)))"
    if "None = Some w" for w
    using that by simp
  have i: "(1::nat) \<le> 3 \<and> (3::nat) < 4 \<and> 4 < length (vtx (block ex_template_pos))"
    "(1::nat) \<le> 1 \<and> (1::nat) < 3 \<and> 3 < length (vtx (block ex_template_pow))"
    by (simp_all add: ex_template_pos_def ex_template_pow_def)
  have e: "GetHash (vtx (block ex_template_pos) ! 3) \<in> spent_hashes (vtx (block ex_template_pos) ! 4)"
    "map GetHash (vtx (block ex_template_pos)) = [9002, 9003, 10, 20, 30, 40]"
    by (simp_all add: ex_template_pos_def spent_hashes_def ex_tx_sel)
  from C2_topological_order [OF ex_pool_ancestors_closed ex_pool_spends_within_ancestors
            ex_run_pos ex_returned(1) w]
    C2_topological_order [OF ex_pool_ancestors_closed ex_pool_spends_within_ancestors
            ex_run_pow ex_returned(2)] i e
  show ?thesis
    by blast
qed

subsection \<open>The example of a thousand rejections\<close>

lemma ex_tight_asm_fields:
  "nBlockWeight ex_tight_asm = 4000" "nBlockMaxWeight ex_tight_asm = 7000"
  "nBlockSigOpsCost ex_tight_asm = 400" "inBlock ex_tight_asm = []"
  "blockMinFeeRate ex_tight_asm = 1000" "fIncludeWitness ex_tight_asm = False"
  by (simp_all add: ex_tight_asm_def model_defs ex_sel ex_raw_def Let_def)

lemma ex_full_pool_sel:
  "length (mapTx (ex_full_pool e)) = 1001"
  "k < 1000 \<Longrightarrow> entry (ex_full_pool e) k = ex_big k"
  "entry (ex_full_pool e) 1000 = e"
  "CalculateMemPoolAncestors (ex_full_pool e) it = []"
  by (simp_all add: ex_full_pool_def entry_def nth_append)

lemma ex_rejected_sel:
  "asm (ex_rejected e k) = ex_tight_asm" "mi (ex_rejected e k) = k"
  "mapModifiedTx (ex_rejected e k) = []" "failedTx (ex_rejected e k) = []"
  "nConsecutiveFailed (ex_rejected e k) = int k"
  by (simp_all add: ex_rejected_def addPackageTxs_begin_def ex_tight_asm_fields
                    UpdatePackagesForAdded_def)

lemma ex_rejected_0:
  "ex_rejected e 0 = addPackageTxs_begin (ex_full_pool e) ex_tight_asm 0 0"
  by (simp add: ex_rejected_def addPackageTxs_begin_def)

lemma ex_big_sel:
  "GetSizeWithAncestors (ex_big k) = 1000" "GetModFeesWithAncestors (ex_big k) = 5000"
  "GetSigOpCostWithAncestors (ex_big k) = 4"
  by (simp_all add: ex_big_def)

lemma ex_big_fails:
  assumes "k < 1000"
  shows "fails_budget_test ex_consts ex_env (ex_full_pool e) (ex_rejected e k)"
  using assms
  by (simp add: fails_budget_test_def ex_rejected_sel ex_full_pool_sel SkipMapTxEntry_def
        mod_find_def choose_candidate_def package_totals_def ex_big_sel
        ex_tight_asm_fields ex_env_sel TestPackage_def u64_def u64_of_int_def ex_consts_sel)

lemma ex_rejected_Suc:
  "(ex_rejected e k)\<lparr> mi := k + 1, nConsecutiveFailed := int k + 1 \<rparr> = ex_rejected e (Suc k)"
  by (simp add: ex_rejected_def)

lemma ex_big_rejected:
  assumes "k < 1000"
  shows "addPackageTxs_body ex_consts ex_env (ex_full_pool e) (ex_rejected e k)
           = Again (ex_rejected e (Suc k))"
proof -
  from assms have "addPackageTxs_body ex_consts ex_env (ex_full_pool e) (ex_rejected e k)
      = Again ((ex_rejected e k)\<lparr> mi := k + 1, nConsecutiveFailed := int k + 1 \<rparr>)"
    by (simp add: addPackageTxs_body_def ex_rejected_sel ex_full_pool_sel SkipMapTxEntry_def
        mod_find_def choose_candidate_def package_totals_def ex_big_sel
        ex_tight_asm_fields ex_env_sel TestPackage_def u64_def u64_of_int_def ex_consts_sel
        drop_failed_def MAX_CONSECUTIVE_FAILURES_def)
  then show ?thesis by (simp only: ex_rejected_Suc)
qed

lemma ex_rejections:
  "k \<le> 1000 \<Longrightarrow> rejections ex_consts ex_env (ex_full_pool e) (ex_rejected e 0) k (ex_rejected e k)"
proof (induction k)
  case 0
  show ?case by (rule rejections.none)
next
  case (Suc k)
  then have k: "k < 1000" by simp
  with Suc have "rejections ex_consts ex_env (ex_full_pool e) (ex_rejected e 0) k (ex_rejected e k)"
    by simp
  then show ?case using ex_big_rejected [OF k] ex_big_fails [OF k]
    by (rule rejections.rejected)
qed

lemma ex_loop_skips:
  "k \<le> 1000 \<Longrightarrow>
     addPackageTxs_loop ex_consts ex_env (ex_full_pool e) (ex_rejected e (1000 - k))
       = addPackageTxs_loop ex_consts ex_env (ex_full_pool e) (ex_rejected e 1000)"
proof (induction k)
  case 0
  show ?case by simp
next
  case (Suc k)
  then have k: "1000 - Suc k < 1000" "Suc (1000 - Suc k) = 1000 - k" by simp_all
  have "addPackageTxs_loop ex_consts ex_env (ex_full_pool e) (ex_rejected e (1000 - Suc k))
      = addPackageTxs_loop ex_consts ex_env (ex_full_pool e) (ex_rejected e (1000 - k))"
    using ex_big_rejected [OF k(1)] k(2)
    by (subst addPackageTxs_loop.simps) simp
  with Suc show ?case by simp
qed

text \<open>With the small entry last: it is considered after the thousand rejections, and
  added.\<close>

lemma ex_small_committed:
  "addPackageTxs_body ex_consts ex_env (ex_full_pool ex_small) (ex_rejected ex_small 1000)
     = Commit [1000] ((ex_rejected ex_small 1000)\<lparr> mi := 1001 \<rparr>)"
  by (simp add: addPackageTxs_body_def ex_rejected_sel ex_full_pool_sel SkipMapTxEntry_def
        mod_find_def choose_candidate_def package_totals_def ex_small_def
        ex_tight_asm_fields ex_env_sel TestPackage_def u64_def u64_of_int_def ex_consts_sel
        onlyUnconfirmed_def TestPackageTransactions_def ex_tx_sel)

lemma ex_small_added_sel:
  "mi ex_small_added = 1001" "mapModifiedTx ex_small_added = []"
  "inBlock (asm ex_small_added) = [1000]" "nBlockWeight (asm ex_small_added) = 4400"
  "nConsecutiveFailed ex_small_added = 0"
  by (simp_all add: ex_small_added_def commit_package_def add_sorted_def SortForBlock_def
        AddToBlock_def UpdatePackagesForAdded_def CalculateDescendants_def ex_full_pool_sel
        update_descendant_def ex_rejected_sel mod_erase_def Let_def ex_tight_asm_fields
        ex_small_def u64_def)

lemma ex_small_added_final:
  "addPackageTxs_loop ex_consts ex_env (ex_full_pool ex_small) (ex_rejected ex_small 1000)
     = Inr ex_small_added"
proof -
  have "addPackageTxs_body ex_consts ex_env (ex_full_pool ex_small) ex_small_added
          = Done ex_small_added"
    by (simp add: addPackageTxs_body_def ex_small_added_sel ex_full_pool_sel)
  then have "addPackageTxs_loop ex_consts ex_env (ex_full_pool ex_small) ex_small_added
          = Inr ex_small_added"
    by (subst addPackageTxs_loop.simps) simp
  then show ?thesis
    using ex_small_committed
    by (subst addPackageTxs_loop.simps) (simp add: ex_small_added_def)
qed


text \<open>
  C5. The loop counts the packages that fail the budget test since the last package that
  was added. It stops at a failure that takes the count above 1000, that is at the
  1001st failure in a row, when the block weight is above the limit less 4000; at a
  failure that takes the count to 1000 or less, or with a lighter block, it goes on to
  the next candidate.
\<close>

theorem C5_consecutive_failure_cutoff:
  assumes "rejections c env pool s0 n s"
    and "nConsecutiveFailed s0 = 0"
    and "fails_budget_test c env pool s"
  shows "nConsecutiveFailed s = int n
       \<and> (1000 \<le> n \<and> nBlockWeight (asm s) > u64_sub (nBlockMaxWeight (asm s)) 4000
            \<longrightarrow> (\<exists>s'. addPackageTxs_body c env pool s = Done s'
                     \<and> addPackageTxs_loop c env pool s = Inr s'
                     \<and> nConsecutiveFailed s' = int n + 1 \<and> asm s' = asm s))
       \<and> (n < 1000 \<or> \<not> nBlockWeight (asm s) > u64_sub (nBlockMaxWeight (asm s)) 4000
            \<longrightarrow> (\<exists>s'. addPackageTxs_body c env pool s = Again s'
                     \<and> rejections c env pool s0 (Suc n) s'
                     \<and> addPackageTxs_loop c env pool s = addPackageTxs_loop c env pool s'))"
proof -
  have n: "nConsecutiveFailed s = int n"
    using rejections_fields(2) [OF assms(1)] assms(2) by simp
  from fails_budget_test_body [OF assms(3)] obtain s' :: selection where
    s': "asm s' = asm s" "nConsecutiveFailed s' = nConsecutiveFailed s + 1"
    and b: "addPackageTxs_body c env pool s
               = (if nConsecutiveFailed s + 1 > MAX_CONSECUTIVE_FAILURES
                     \<and> nBlockWeight (asm s) > u64_sub (nBlockMaxWeight (asm s)) 4000
                  then Done s' else Again s')"
    by blast
  have c: "nConsecutiveFailed s + 1 > MAX_CONSECUTIVE_FAILURES \<longleftrightarrow> 1000 \<le> n"
    by (simp add: n MAX_CONSECUTIVE_FAILURES_def)
  show ?thesis
  proof (cases "1000 \<le> n \<and> nBlockWeight (asm s) > u64_sub (nBlockMaxWeight (asm s)) 4000")
    case True
    with b c have d: "addPackageTxs_body c env pool s = Done s'" by simp
    then have "addPackageTxs_loop c env pool s = Inr s'"
      by (subst addPackageTxs_loop.simps) simp
    with d s' n True show ?thesis by auto
  next
    case False
    with b c have a: "addPackageTxs_body c env pool s = Again s'" by auto
    then have "addPackageTxs_loop c env pool s = addPackageTxs_loop c env pool s'"
      by (subst addPackageTxs_loop.simps) simp
    moreover have "rejections c env pool s0 (Suc n) s'"
      using assms(1) a assms(3) by (rule rejections.rejected)
    ultimately show ?thesis using a n False by auto
  qed
qed

theorem C5_consecutive_failure_cutoff_witness:
  "nConsecutiveFailed (ex_rejected (ex_big 1000) 1000) = 1000
   \<and> (\<exists>s'. addPackageTxs_body ex_consts ex_env (ex_full_pool (ex_big 1000))
               (ex_rejected (ex_big 1000) 1000) = Done s'
          \<and> addPackageTxs_loop ex_consts ex_env (ex_full_pool (ex_big 1000))
               (ex_rejected (ex_big 1000) 1000) = Inr s'
          \<and> nConsecutiveFailed s' = 1001 \<and> asm s' = ex_tight_asm)
   \<and> (\<exists>s'. addPackageTxs_body ex_consts ex_env (ex_full_pool (ex_big 1000))
               (ex_rejected (ex_big 1000) 999) = Again s'
          \<and> rejections ex_consts ex_env (ex_full_pool (ex_big 1000))
               (ex_rejected (ex_big 1000) 0) 1000 s')"
proof -
  have r: "rejections ex_consts ex_env (ex_full_pool (ex_big 1000))
             (ex_rejected (ex_big 1000) 0) 1000 (ex_rejected (ex_big 1000) 1000)"
    "rejections ex_consts ex_env (ex_full_pool (ex_big 1000))
             (ex_rejected (ex_big 1000) 0) 999 (ex_rejected (ex_big 1000) 999)"
    using ex_rejections [of 1000 "ex_big 1000"] ex_rejections [of 999 "ex_big 1000"]
    by simp_all
  have z: "nConsecutiveFailed (ex_rejected (ex_big 1000) 0) = 0"
    by (simp add: ex_rejected_sel)
  have f: "fails_budget_test ex_consts ex_env (ex_full_pool (ex_big 1000))
             (ex_rejected (ex_big 1000) 1000)"
    by (simp add: fails_budget_test_def ex_rejected_sel ex_full_pool_sel SkipMapTxEntry_def
        mod_find_def choose_candidate_def package_totals_def ex_big_sel
        ex_tight_asm_fields ex_env_sel TestPackage_def u64_def u64_of_int_def ex_consts_sel)
  have w: "nBlockWeight (asm (ex_rejected (ex_big 1000) 1000))
       > u64_sub (nBlockMaxWeight (asm (ex_rejected (ex_big 1000) 1000))) 4000"
    "nBlockWeight (asm (ex_rejected (ex_big 1000) 999))
       > u64_sub (nBlockMaxWeight (asm (ex_rejected (ex_big 1000) 999))) 4000"
    by (simp_all add: ex_rejected_sel ex_tight_asm_fields u64_sub_def)
  have a: "asm (ex_rejected (ex_big 1000) 1000) = ex_tight_asm"
    by (simp add: ex_rejected_sel)
  have n: "(1000::nat) \<le> 1000" "(999::nat) < 1000" "int 1000 = 1000" "int 1000 + 1 = 1001"
    by simp_all
  from C5_consecutive_failure_cutoff [OF r(1) z f] w n
  have t1: "nConsecutiveFailed (ex_rejected (ex_big 1000) 1000) = 1000
   \<and> (\<exists>s'. addPackageTxs_body ex_consts ex_env (ex_full_pool (ex_big 1000))
               (ex_rejected (ex_big 1000) 1000) = Done s'
          \<and> addPackageTxs_loop ex_consts ex_env (ex_full_pool (ex_big 1000))
               (ex_rejected (ex_big 1000) 1000) = Inr s'
          \<and> nConsecutiveFailed s' = 1001 \<and> asm s' = ex_tight_asm)"
    by (simp add: a)
  from C5_consecutive_failure_cutoff [OF r(2) z ex_big_fails [OF n(2)]] n
  have t2: "\<exists>s'. addPackageTxs_body ex_consts ex_env (ex_full_pool (ex_big 1000))
               (ex_rejected (ex_big 1000) 999) = Again s'
          \<and> rejections ex_consts ex_env (ex_full_pool (ex_big 1000))
               (ex_rejected (ex_big 1000) 0) 1000 s'"
    by auto
  from t1 t2 show ?thesis by blast
qed

text \<open>
  After exactly 1000 failures in a row, with the block weight above the limit less 4000,
  the loop does not stop: the next candidate of the example is considered and added to
  the block.
\<close>

theorem C5_counterexample:
  "rejections ex_consts ex_env (ex_full_pool ex_small)
     (addPackageTxs_begin (ex_full_pool ex_small) ex_tight_asm 0 0) 1000
     (ex_rejected ex_small 1000)
   \<and> nConsecutiveFailed (ex_rejected ex_small 1000) = MAX_CONSECUTIVE_FAILURES
   \<and> nBlockWeight (asm (ex_rejected ex_small 1000))
       > u64_sub (nBlockMaxWeight (asm (ex_rejected ex_small 1000))) 4000
   \<and> addPackageTxs_body ex_consts ex_env (ex_full_pool ex_small) (ex_rejected ex_small 1000)
       = Commit [1000] ((ex_rejected ex_small 1000)\<lparr> mi := 1001 \<rparr>)
   \<and> addPackageTxs ex_consts ex_env (ex_full_pool ex_small) ex_tight_asm 0 0
       = Inr ex_small_added
   \<and> inBlock (asm ex_small_added) = [1000]"
proof -
  have "rejections ex_consts ex_env (ex_full_pool ex_small)
     (addPackageTxs_begin (ex_full_pool ex_small) ex_tight_asm 0 0) 1000
     (ex_rejected ex_small 1000)"
    using ex_rejections [of 1000 ex_small] by (simp add: ex_rejected_0)
  moreover have "nConsecutiveFailed (ex_rejected ex_small 1000) = MAX_CONSECUTIVE_FAILURES"
    by (simp add: ex_rejected_sel MAX_CONSECUTIVE_FAILURES_def)
  moreover have "nBlockWeight (asm (ex_rejected ex_small 1000))
       > u64_sub (nBlockMaxWeight (asm (ex_rejected ex_small 1000))) 4000"
    by (simp add: ex_rejected_sel ex_tight_asm_fields u64_sub_def)
  moreover have "addPackageTxs ex_consts ex_env (ex_full_pool ex_small) ex_tight_asm 0 0
       = Inr ex_small_added"
    using ex_loop_skips [of 1000 ex_small] ex_small_added_final
    by (simp add: addPackageTxs_def ex_rejected_0)
  ultimately show ?thesis
    using ex_small_committed ex_small_added_sel(3) by blast
qed



end
